theory Spec2Isabelle
  imports Complex_Main "HOL-Library.Sublist"
begin

section \<open>Values shared by the service wrapper, the canonicalizer and the orchestrator\<close>

text \<open>
  A value thrown by a JavaScript \<^verbatim>\<open>throw\<close> or carried by a rejected promise is either
  an \<^verbatim>\<open>Error\<close> object with its message, or some other value (the test
  \<^verbatim>\<open>error instanceof Error\<close> tells them apart).
\<close>

datatype Thrown = ErrorObj string | NonError

text \<open>\<^verbatim>\<open>types.ts\<close>: \<^verbatim>\<open>Base64Image\<close>. The field \<^verbatim>\<open>base64\<close> is filled from
  \<^verbatim>\<open>split(',')[1]\<close>, which is \<^verbatim>\<open>undefined\<close> (here \<open>None\<close>) when the string has no comma.\<close>

record Base64Image =
  base64 :: "string option"
  mimeType :: string

text \<open>JavaScript truthiness of a string and of an optional string.\<close>

definition truthy :: "string \<Rightarrow> bool" where
  "truthy s = (s \<noteq> [])"

definition truthy_opt :: "string option \<Rightarrow> bool" where
  "truthy_opt x = (case x of None \<Rightarrow> False | Some s \<Rightarrow> truthy s)"

text \<open>\<^verbatim>\<open>s.split(',')\<close>: the pieces of \<open>s\<close> between commas (never an empty array), and
  array indexing, which is \<^verbatim>\<open>undefined\<close> out of range.\<close>

fun split_comma :: "string \<Rightarrow> string list" where
  "split_comma [] = [[]]"
| "split_comma (c # cs) =
     (if c = CHR '','' then [] # split_comma cs
      else (case split_comma cs of [] \<Rightarrow> [[c]] | p # ps \<Rightarrow> (c # p) # ps))"

fun index_opt :: "'a list \<Rightarrow> nat \<Rightarrow> 'a option" where
  "index_opt [] n = None"
| "index_opt (x # xs) 0 = Some x"
| "index_opt (x # xs) (Suc n) = index_opt xs n"

text \<open>Decimal rendering of an integer in a template literal. JavaScript switches to
  exponent notation from \<open>10\<^sup>2\<^sup>1\<close> on; attempt counts and modification times in
  milliseconds stay far below that.\<close>

definition digit_char :: "nat \<Rightarrow> char" where
  "digit_char d = ''0123456789'' ! d"

function string_of_nat :: "nat \<Rightarrow> string" where
  "string_of_nat n =
     (if n < 10 then [digit_char n] else string_of_nat (n div 10) @ [digit_char (n mod 10)])"
  by pat_completeness auto
termination
  by (relation "measure (\<lambda>n. n)") auto

declare string_of_nat.simps [simp del]

definition string_of_int :: "int \<Rightarrow> string" where
  "string_of_int i = (if i < 0 then CHR ''-'' # string_of_nat (nat (- i)) else string_of_nat (nat i))"

section \<open>\<^verbatim>\<open>services/geminiService.ts\<close>: the retrying call wrapper\<close>

text \<open>The part of \<^verbatim>\<open>GenerateContentResponse\<close> that the wrapper reads. Every field the
  SDK declares optional is an option.\<close>

record Blob =
  blob_data :: "string option"
  blob_mimeType :: "string option"

record Part =
  part_inlineData :: "Blob option"
  part_text :: "string option"

record Content =
  content_parts :: "Part list option"

record Candidate =
  cand_content :: "Content option"

record PromptFeedback =
  blockReason :: "string option"

record GenerateContentResponse =
  candidates :: "Candidate list option"
  promptFeedback :: "PromptFeedback option"

text \<open>
  One invocation of \<^verbatim>\<open>requestFn\<close> settles by rejecting with a thrown value or by
  resolving with a response. The operation handed to the wrapper is modelled by the
  outcomes of its successive invocations: \<open>requestFn k\<close> is what the invocation made in
  loop iteration \<open>attempt = k\<close> settles with.
\<close>

type_synonym Outcome = "Thrown + GenerateContentResponse"

definition MAX_RETRIES :: nat where
  "MAX_RETRIES = 2"

text \<open>What the wrapper does besides returning: invoking the operation, writing to
  \<^verbatim>\<open>console.error\<close>, and suspending on \<^verbatim>\<open>setTimeout\<close> for a number of milliseconds.\<close>

datatype Event = Invoke | ConsoleError string | Delay nat

text \<open>\<^verbatim>\<open>result.candidates?.[0]\<close>\<close>

definition firstCandidate :: "GenerateContentResponse \<Rightarrow> Candidate option" where
  "firstCandidate result = (case candidates result of None \<Rightarrow> None | Some cs \<Rightarrow> index_opt cs 0)"

text \<open>\<^verbatim>\<open>candidate.content.parts\<close> when \<^verbatim>\<open>candidate\<close>, \<^verbatim>\<open>candidate.content\<close> and
  \<^verbatim>\<open>candidate.content.parts\<close> are all present (an empty array is present).\<close>

definition candidateParts :: "GenerateContentResponse \<Rightarrow> Part list option" where
  "candidateParts result =
     (case firstCandidate result of None \<Rightarrow> None
      | Some candidate \<Rightarrow>
          (case cand_content candidate of None \<Rightarrow> None
           | Some content \<Rightarrow> content_parts content))"

text \<open>\<^verbatim>\<open>result.promptFeedback?.blockReason\<close>\<close>

definition responseBlockReason :: "GenerateContentResponse \<Rightarrow> string option" where
  "responseBlockReason result =
     (case promptFeedback result of None \<Rightarrow> None | Some fb \<Rightarrow> blockReason fb)"

text \<open>\<^verbatim>\<open>part.inlineData?.data\<close>\<close>

definition partData :: "Part \<Rightarrow> string option" where
  "partData part = (case part_inlineData part of None \<Rightarrow> None | Some b \<Rightarrow> blob_data b)"

text \<open>The loop \<^verbatim>\<open>for (const part of candidate.content.parts)\<close>: the data URL returned at
  the first part whose \<^verbatim>\<open>part.inlineData?.data\<close> is truthy, \<open>None\<close> when the loop ends
  without returning.\<close>

fun scanParts :: "Part list \<Rightarrow> string option" where
  "scanParts [] = None"
| "scanParts (part # rest) =
     (case partData part of
        None \<Rightarrow> scanParts rest
      | Some base64ImageBytes \<Rightarrow>
          (if truthy base64ImageBytes
           then Some (''data:image/png;base64,'' @ base64ImageBytes)
           else scanParts rest))"

text \<open>The body of the \<^verbatim>\<open>try\<close> block after \<^verbatim>\<open>await requestFn()\<close> has settled with
  \<open>outcome\<close>: \<open>Inl\<close> what is thrown into the \<^verbatim>\<open>catch\<close>, \<open>Inr\<close> what is returned.\<close>

definition tryAttempt :: "string \<Rightarrow> Outcome \<Rightarrow> Thrown + string" where
  "tryAttempt requestName outcome =
     (case outcome of
        Inl thrown \<Rightarrow> Inl thrown
      | Inr result \<Rightarrow>
          (case candidateParts result of
             None \<Rightarrow>
               Inl (ErrorObj
                 (case responseBlockReason result of
                    None \<Rightarrow> requestName @ '' failed. The model did not return a valid response.''
                  | Some reason \<Rightarrow>
                      (if truthy reason then ''Request blocked: '' @ reason
                       else requestName @ '' failed. The model did not return a valid response.'')))
           | Some parts \<Rightarrow>
               (case scanParts parts of
                  Some url \<Rightarrow> Inr url
                | None \<Rightarrow> Inl (ErrorObj ''No image data found in the response for this attempt.''))))"

text \<open>\<^verbatim>\<open>lastError = error instanceof Error ? error : new Error('An unknown error occurred')\<close>,
  kept as the message of the recorded \<^verbatim>\<open>Error\<close>.\<close>

definition recordedMessage :: "Thrown \<Rightarrow> string" where
  "recordedMessage thrown =
     (case thrown of ErrorObj m \<Rightarrow> m | NonError \<Rightarrow> ''An unknown error occurred'')"

text \<open>\<^verbatim>\<open>lastError?.message || 'Unknown'\<close>\<close>

definition lastErrorText :: "string option \<Rightarrow> string" where
  "lastErrorText lastError =
     (case lastError of None \<Rightarrow> ''Unknown''
      | Some message \<Rightarrow> (if truthy message then message else ''Unknown''))"

definition attemptLogLine :: "string \<Rightarrow> nat \<Rightarrow> string" where
  "attemptLogLine requestName attempt =
     ''Error on '' @ requestName @ '' attempt '' @ string_of_nat (attempt + 1) @ ''/''
       @ string_of_nat (MAX_RETRIES + 1) @ '':''"

definition finalErrorMessage :: "string \<Rightarrow> string option \<Rightarrow> string" where
  "finalErrorMessage requestName lastError =
     requestName @ '' failed after '' @ string_of_nat (MAX_RETRIES + 1)
       @ '' attempts. Last error: '' @ lastErrorText lastError"

text \<open>The loop \<^verbatim>\<open>for (let attempt = 0; attempt <= MAX_RETRIES; attempt++)\<close> from the
  state \<open>(attempt, lastError)\<close>, followed by the code after the loop. The result pairs
  what the wrapper returns (\<open>Inr\<close>) or throws (\<open>Inl\<close>) with its events in order.\<close>

function retryLoop ::
  "(nat \<Rightarrow> Outcome) \<Rightarrow> string \<Rightarrow> nat \<Rightarrow> string option \<Rightarrow> (Thrown + string) \<times> Event list" where
  "retryLoop requestFn requestName attempt lastError =
     (if attempt \<le> MAX_RETRIES then
        (case tryAttempt requestName (requestFn attempt) of
           Inr url \<Rightarrow> (Inr url, [Invoke])
         | Inl thrown \<Rightarrow>
             (case retryLoop requestFn requestName (attempt + 1) (Some (recordedMessage thrown)) of
                (r, evs) \<Rightarrow>
                  (r, [Invoke, ConsoleError (attemptLogLine requestName attempt)]
                        @ (if attempt < MAX_RETRIES then [Delay (1000 * (attempt + 1))] else [])
                        @ evs)))
      else
        (Inl (ErrorObj (finalErrorMessage requestName lastError)),
         [ConsoleError (''All retries failed for '' @ requestName @ ''.'')]))"
  by pat_completeness auto
termination
  by (relation "measure (\<lambda>(requestFn, requestName, attempt, lastError). MAX_RETRIES + 1 - attempt)")
     auto

declare retryLoop.simps [simp del]

definition retryableRequest ::
  "(nat \<Rightarrow> Outcome) \<Rightarrow> string \<Rightarrow> (Thrown + string) \<times> Event list" where
  "retryableRequest requestFn requestName = retryLoop requestFn requestName 0 None"

text \<open>How often the operation was invoked, and the delays slept, in order.\<close>

definition invocations :: "Event list \<Rightarrow> nat" where
  "invocations evs = length (filter (\<lambda>e. e = Invoke) evs)"

fun delays :: "Event list \<Rightarrow> nat list" where
  "delays [] = []"
| "delays (Delay ms # evs) = ms # delays evs"
| "delays (e # evs) = delays evs"


subsection \<open>Sample responses\<close>

text \<open>A response whose first candidate carries the given parts, and two kinds of part.\<close>

definition responseWith :: "Part list \<Rightarrow> GenerateContentResponse" where
  "responseWith parts =
     \<lparr>candidates = Some [\<lparr>cand_content = Some \<lparr>content_parts = Some parts\<rparr>\<rparr>],
      promptFeedback = None\<rparr>"

definition textPart :: "string \<Rightarrow> Part" where
  "textPart t = \<lparr>part_inlineData = None, part_text = Some t\<rparr>"

definition inlinePart :: "string \<Rightarrow> string \<Rightarrow> Part" where
  "inlinePart d m =
     \<lparr>part_inlineData = Some \<lparr>blob_data = Some d, blob_mimeType = Some m\<rparr>, part_text = None\<rparr>"

section \<open>\<^verbatim>\<open>utils/fileUtils.ts\<close>: the canonicalizer\<close>

text \<open>The revision modelled is the one \<^verbatim>\<open>App.tsx\<close> calls, with the \<^verbatim>\<open>options\<close>
  argument; the earlier one-argument revision is its \<^verbatim>\<open>cropToSquare\<close> branch.\<close>

text \<open>A \<^verbatim>\<open>File\<close> as far as the program reads it: its name and its modification time in
  milliseconds.\<close>

record File =
  file_name :: string
  file_lastModified :: int

text \<open>
  The browser around \<^verbatim>\<open>convertImageToBase64\<close>. A \<^verbatim>\<open>FileReader\<close> either fires
  \<^verbatim>\<open>onerror\<close> or fires \<^verbatim>\<open>onload\<close> with \<^verbatim>\<open>event.target.result\<close>; an \<^verbatim>\<open>Image\<close> either
  fires \<^verbatim>\<open>onerror\<close> with an event (kept as its rendering in a template literal) or fires
  \<^verbatim>\<open>onload\<close> with its width and height; \<^verbatim>\<open>getContext('2d')\<close> gives a context or
  \<^verbatim>\<open>null\<close>.
\<close>

datatype ReaderOutcome = ReaderError | ReaderLoaded "string option"

datatype ImageOutcome = ImageError string | ImageLoaded nat nat

text \<open>The two forms of \<^verbatim>\<open>ctx.drawImage\<close> in use: \<^verbatim>\<open>(img, dx, dy)\<close> and
  \<^verbatim>\<open>(img, sx, sy, sWidth, sHeight, dx, dy, dWidth, dHeight)\<close>. The arguments are JavaScript
  numbers; halving a difference of two image dimensions is exact in them, so they are
  modelled as reals.\<close>

datatype DrawCall =
    DrawImage3 real real
  | DrawImage9 real real real real real real real real

record Canvas =
  canvas_width :: nat
  canvas_height :: nat
  canvas_drawn :: "DrawCall list"

record Browser =
  readAsDataURL :: "File \<Rightarrow> ReaderOutcome"
  loadImage :: "string \<Rightarrow> ImageOutcome"
  getContext2d :: bool
  toDataURL :: "string \<Rightarrow> Canvas \<Rightarrow> string \<Rightarrow> string"
  createObjectURL :: "File \<Rightarrow> string"

record ConversionOptions =
  cropToSquare :: bool

definition TARGET_DIMENSION :: nat where
  "TARGET_DIMENSION = 965"

text \<open>The body of \<^verbatim>\<open>img.onload\<close> once the context is there: the canvas it sets up and
  the one \<^verbatim>\<open>drawImage\<close> call it makes, for an image of the given width and height.\<close>

definition drawOnCanvas :: "ConversionOptions \<Rightarrow> nat \<Rightarrow> nat \<Rightarrow> Canvas" where
  "drawOnCanvas options originalWidth originalHeight =
     (if cropToSquare options then
        (let sx = (if originalWidth > originalHeight
                   then (real originalWidth - real originalHeight) / 2 else 0);
             sy = (if originalWidth > originalHeight then 0
                   else if originalHeight > originalWidth
                   then (real originalHeight - real originalWidth) / 2 else 0);
             sWidth = (if originalWidth > originalHeight then real originalHeight
                       else real originalWidth);
             sHeight = (if originalWidth > originalHeight then real originalHeight
                        else if originalHeight > originalWidth then real originalWidth
                        else real originalHeight)
         in \<lparr>canvas_width = TARGET_DIMENSION, canvas_height = TARGET_DIMENSION,
             canvas_drawn = [DrawImage9 sx sy sWidth sHeight 0 0
                               (real TARGET_DIMENSION) (real TARGET_DIMENSION)]\<rparr>)
      else
        \<lparr>canvas_width = originalWidth, canvas_height = originalHeight,
         canvas_drawn = [DrawImage3 0 0]\<rparr>)"

text \<open>\<^verbatim>\<open>convertImageToBase64(file, options)\<close>: \<open>Inl\<close> what the promise rejects with,
  \<open>Inr\<close> what it resolves with.\<close>

definition convertImageToBase64 ::
  "Browser \<Rightarrow> File \<Rightarrow> ConversionOptions \<Rightarrow> Thrown + Base64Image" where
  "convertImageToBase64 browser file options =
     (case readAsDataURL browser file of
        ReaderError \<Rightarrow> Inl NonError
      | ReaderLoaded result \<Rightarrow>
          (case result of
             None \<Rightarrow> Inl (ErrorObj ''FileReader did not load the file.'')
           | Some src \<Rightarrow>
               (if \<not> truthy src then Inl (ErrorObj ''FileReader did not load the file.'')
                else
                  (case loadImage browser src of
                     ImageError event \<Rightarrow> Inl (ErrorObj (''Image could not be loaded: '' @ event))
                   | ImageLoaded width height \<Rightarrow>
                       (if \<not> getContext2d browser
                        then Inl (ErrorObj ''Could not get canvas 2D context.'')
                        else
                          (let canvas = drawOnCanvas options width height;
                               dataUrl = toDataURL browser src canvas ''image/png'';
                               base64 = index_opt (split_comma dataUrl) 1
                           in Inr \<lparr>base64 = base64, mimeType = ''image/png''\<rparr>))))))"

section \<open>\<^verbatim>\<open>App.tsx\<close>: the job registry and the batch orchestrator\<close>

datatype ProcessingStatus = st_pending | st_processing | st_done | st_error

record EmployeeImage =
  img_id :: string
  img_file :: File
  originalUrl :: string
  processedUrl :: "string option"
  status :: ProcessingStatus
  img_error :: "string option"

datatype AppState = needs_logo | needs_photos | processing_photos | idle

text \<open>The component's four state variables.\<close>

record App =
  appState :: AppState
  masterBackground :: "Base64Image option"
  companyLogo :: "Base64Image option"
  employeeImages :: "EmployeeImage list"

definition initialApp :: App where
  "initialApp =
     \<lparr>appState = needs_logo, masterBackground = None, companyLogo = None, employeeImages = []\<rparr>"

text \<open>
  What surrounds one call of an event handler or of the processing round: the browser, and
  the generation service as the outcomes of the invocations of \<^verbatim>\<open>ai.models.generateContent\<close>.
  The service may answer two equal requests differently, so the outcomes for a headshot
  are given per position of the job in the batch as well as per request.
\<close>

record Env =
  browser :: Browser
  backgroundService :: "nat \<Rightarrow> Outcome"
  headshotService :: "nat \<Rightarrow> Base64Image \<Rightarrow> Base64Image \<Rightarrow> Base64Image \<Rightarrow> nat \<Rightarrow> Outcome"

text \<open>The calls a round makes to its collaborators, in the order it makes them.\<close>

datatype Call =
    GenerateMasterBackground
  | ConvertImageToBase64 File bool
  | ProcessHeadshot Base64Image Base64Image Base64Image

definition generateMasterBackground :: "Env \<Rightarrow> (Thrown + string) \<times> Event list" where
  "generateMasterBackground env =
     retryableRequest (backgroundService env) ''Master Background Generation''"

text \<open>How many of the calls create the master background, and the backgrounds handed to
  \<^verbatim>\<open>processHeadshot\<close>.\<close>

definition creations :: "Call list \<Rightarrow> nat" where
  "creations calls = length (filter (\<lambda>c. c = GenerateMasterBackground) calls)"

fun backgroundsUsed :: "Call list \<Rightarrow> Base64Image list" where
  "backgroundsUsed [] = []"
| "backgroundsUsed (ProcessHeadshot employeeImage background logo # calls) =
     background # backgroundsUsed calls"
| "backgroundsUsed (c # calls) = backgroundsUsed calls"

definition processHeadshot ::
  "Env \<Rightarrow> nat \<Rightarrow> Base64Image \<Rightarrow> Base64Image \<Rightarrow> Base64Image \<Rightarrow> (Thrown + string) \<times> Event list" where
  "processHeadshot env position employeeImage background logo =
     retryableRequest (headshotService env position employeeImage background logo)
       ''Headshot Processing''"

text \<open>\<^verbatim>\<open>handleEmployeesUpload\<close>\<close>

definition newImage :: "Env \<Rightarrow> File \<Rightarrow> EmployeeImage" where
  "newImage env file =
     \<lparr>img_id = file_name file @ ''-'' @ string_of_int (file_lastModified file),
      img_file = file,
      originalUrl = createObjectURL (browser env) file,
      processedUrl = None,
      status = st_pending,
      img_error = None\<rparr>"

definition handleEmployeesUpload :: "Env \<Rightarrow> File list \<Rightarrow> App \<Rightarrow> App" where
  "handleEmployeesUpload env files st =
     st\<lparr>employeeImages := employeeImages st @ map (newImage env) files\<rparr>"

text \<open>\<^verbatim>\<open>handleLogoUpload\<close>, as a whole (its \<^verbatim>\<open>await\<close> settled before anything else
  happens; the sessions below split it there), and \<^verbatim>\<open>handleReset\<close>\<close>

definition handleLogoUpload :: "Env \<Rightarrow> File list \<Rightarrow> App \<Rightarrow> App" where
  "handleLogoUpload env files st =
     (case files of
        [] \<Rightarrow> st
      | file # others \<Rightarrow>
          (case convertImageToBase64 (browser env) file \<lparr>cropToSquare = False\<rparr> of
             Inr logoBase64 \<Rightarrow> st\<lparr>companyLogo := Some logoBase64, appState := needs_photos\<rparr>
           | Inl thrown \<Rightarrow> st))"

definition handleReset :: "App \<Rightarrow> App" where
  "handleReset st =
     st\<lparr>employeeImages := [],
        appState := (case companyLogo st of Some logo \<Rightarrow> needs_photos | None \<Rightarrow> needs_logo)\<rparr>"

text \<open>\<^verbatim>\<open>imagesToProcess.some(p => p.id === img.id)\<close>\<close>

definition inBatch :: "EmployeeImage list \<Rightarrow> EmployeeImage \<Rightarrow> bool" where
  "inBatch imagesToProcess img = list_ex (\<lambda>p. img_id p = img_id img) imagesToProcess"

text \<open>The two bulk updaters handed to \<^verbatim>\<open>setEmployeeImages\<close>: to \<^verbatim>\<open>processing\<close> when the
  round starts, to \<^verbatim>\<open>error\<close> when the master background cannot be generated.\<close>

definition markProcessing :: "EmployeeImage list \<Rightarrow> EmployeeImage list \<Rightarrow> EmployeeImage list" where
  "markProcessing imagesToProcess prev =
     map (\<lambda>img. if inBatch imagesToProcess img then img\<lparr>status := st_processing\<rparr> else img) prev"

definition markError ::
  "EmployeeImage list \<Rightarrow> string \<Rightarrow> EmployeeImage list \<Rightarrow> EmployeeImage list" where
  "markError imagesToProcess errorMessage prev =
     map (\<lambda>img. if inBatch imagesToProcess img
                then img\<lparr>status := st_error, img_error := Some errorMessage\<rparr> else img) prev"

text \<open>\<^verbatim>\<open>error instanceof Error ? error.message : fallback\<close>\<close>

definition messageOr :: "Thrown \<Rightarrow> string \<Rightarrow> string" where
  "messageOr thrown fallback = (case thrown of ErrorObj m \<Rightarrow> m | NonError \<Rightarrow> fallback)"

text \<open>The object a per-job task returns, and how a promise settles
  (\<^verbatim>\<open>PromiseSettledResult\<close>).\<close>

record TaskResult =
  res_id :: string
  res_status :: ProcessingStatus
  res_url :: "string option"
  res_error :: "string option"

datatype Settled = Fulfilled TaskResult | Rejected Thrown

text \<open>The task mapped over \<^verbatim>\<open>imagesToProcess\<close>, for the job at the given position: what it
  returns and the calls it makes. Its \<^verbatim>\<open>catch\<close> turns whatever is thrown into a returned
  \<^verbatim>\<open>error\<close> result, so its promise always fulfils.\<close>

definition processImage ::
  "Env \<Rightarrow> Base64Image \<Rightarrow> Base64Image \<Rightarrow> nat \<times> EmployeeImage \<Rightarrow> TaskResult \<times> Call list" where
  "processImage env currentMasterBackground logo job =
     (case job of (position, img) \<Rightarrow>
        (case convertImageToBase64 (browser env) (img_file img) \<lparr>cropToSquare = True\<rparr> of
           Inl thrown \<Rightarrow>
             (\<lparr>res_id = img_id img, res_status = st_error, res_url = None,
               res_error = Some (messageOr thrown ''Unknown processing error.'')\<rparr>,
              [ConvertImageToBase64 (img_file img) True])
         | Inr employeeImageBase64 \<Rightarrow>
             (case fst (processHeadshot env position employeeImageBase64
                          currentMasterBackground logo) of
                Inr processedImageUrl \<Rightarrow>
                  (\<lparr>res_id = img_id img, res_status = st_done,
                    res_url = Some processedImageUrl, res_error = None\<rparr>,
                   [ConvertImageToBase64 (img_file img) True,
                    ProcessHeadshot employeeImageBase64 currentMasterBackground logo])
              | Inl thrown \<Rightarrow>
                  (\<lparr>res_id = img_id img, res_status = st_error, res_url = None,
                    res_error = Some (messageOr thrown ''Unknown processing error.'')\<rparr>,
                   [ConvertImageToBase64 (img_file img) True,
                    ProcessHeadshot employeeImageBase64 currentMasterBackground logo]))))"

text \<open>\<^verbatim>\<open>findIndex\<close>, with \<open>None\<close> for \<^verbatim>\<open>-1\<close>.\<close>

fun findIndex :: "('a \<Rightarrow> bool) \<Rightarrow> 'a list \<Rightarrow> nat option" where
  "findIndex P [] = None"
| "findIndex P (x # xs) =
     (if P x then Some 0 else (case findIndex P xs of None \<Rightarrow> None | Some i \<Rightarrow> Some (Suc i)))"

text \<open>The three assignments to \<^verbatim>\<open>newImages[index]\<close>.\<close>

definition assignResult :: "TaskResult \<Rightarrow> EmployeeImage \<Rightarrow> EmployeeImage" where
  "assignResult val img =
     (let img1 = img\<lparr>status := res_status val\<rparr>;
          img2 = (if res_status val = st_done \<and> truthy_opt (res_url val)
                  then img1\<lparr>processedUrl := res_url val\<rparr> else img1)
      in (if res_status val = st_error \<and> truthy_opt (res_error val)
          then img2\<lparr>img_error := res_error val\<rparr> else img2))"

text \<open>The body of \<^verbatim>\<open>results.forEach\<close> for one settled result: a rejected one is passed
  over, a fulfilled one updates the first record with its id, if there is one.\<close>

definition applyResult :: "Settled \<Rightarrow> EmployeeImage list \<Rightarrow> EmployeeImage list" where
  "applyResult result newImages =
     (case result of
        Rejected reason \<Rightarrow> newImages
      | Fulfilled val \<Rightarrow>
          (case findIndex (\<lambda>img. img_id img = res_id val) newImages of
             None \<Rightarrow> newImages
           | Some index \<Rightarrow> newImages[index := assignResult val (newImages ! index)]))"

definition fanIn :: "Settled list \<Rightarrow> EmployeeImage list \<Rightarrow> EmployeeImage list" where
  "fanIn results prev = fold applyResult results prev"

text \<open>
  \<^verbatim>\<open>processPendingImages\<close>, in the two parts its first \<^verbatim>\<open>await\<close> separates.

  \<open>roundStart\<close> runs synchronously on the state the callback closed over: it returns
  \<open>None\<close> at either early \<^verbatim>\<open>return\<close>, else the batch \<^verbatim>\<open>imagesToProcess\<close>, the logo, and
  the state after \<^verbatim>\<open>setAppState('processing_photos')\<close> and the bulk update.
\<close>

definition roundStart :: "App \<Rightarrow> (EmployeeImage list \<times> Base64Image \<times> App) option" where
  "roundStart st =
     (case companyLogo st of
        None \<Rightarrow> None
      | Some logo \<Rightarrow>
          (let imagesToProcess = filter (\<lambda>img. status img = st_pending) (employeeImages st)
           in if length imagesToProcess = 0 then None
              else Some (imagesToProcess, logo,
                         st\<lparr>appState := processing_photos,
                            employeeImages := markProcessing imagesToProcess (employeeImages st)\<rparr>)))"

text \<open>Step 2 of the round: the tasks are started for every job of the batch, all of them
  settle, and the fan-in updater and \<^verbatim>\<open>setAppState('idle')\<close> are applied to the current
  state.\<close>

definition fanOutFanIn ::
  "Env \<Rightarrow> EmployeeImage list \<Rightarrow> Base64Image \<Rightarrow> Base64Image \<Rightarrow> App \<Rightarrow> App \<times> Call list" where
  "fanOutFanIn env imagesToProcess currentMasterBackground logo st =
     (let tasks = map (processImage env currentMasterBackground logo) (enumerate 0 imagesToProcess);
          results = map (\<lambda>task. Fulfilled (fst task)) tasks
      in (st\<lparr>employeeImages := fanIn results (employeeImages st), appState := idle\<rparr>,
          concat (map snd tasks)))"

text \<open>
  \<open>roundFinish\<close> is the rest of the round. The master background it starts from is the
  one the callback closed over; its state updates are functional, so they apply to the
  state as it is when they run, which is the argument \<open>st\<close>.
\<close>

definition roundFinish ::
  "Env \<Rightarrow> EmployeeImage list \<Rightarrow> Base64Image option \<Rightarrow> Base64Image \<Rightarrow> App \<Rightarrow> App \<times> Call list" where
  "roundFinish env imagesToProcess capturedBackground logo st =
     (case capturedBackground of
        Some currentMasterBackground \<Rightarrow>
          fanOutFanIn env imagesToProcess currentMasterBackground logo st
      | None \<Rightarrow>
          (case fst (generateMasterBackground env) of
             Inl thrown \<Rightarrow>
               (st\<lparr>employeeImages :=
                      markError imagesToProcess
                        (messageOr thrown ''Master background generation failed.'')
                        (employeeImages st),
                   appState := idle\<rparr>,
                [GenerateMasterBackground])
           | Inr bgDataUrl \<Rightarrow>
               (let currentMasterBackground =
                      \<lparr>base64 = index_opt (split_comma bgDataUrl) 1, mimeType = ''image/png''\<rparr>;
                    r = fanOutFanIn env imagesToProcess currentMasterBackground logo
                          (st\<lparr>masterBackground := Some currentMasterBackground\<rparr>)
                in (fst r, GenerateMasterBackground # snd r))))"

text \<open>
  One round. \<open>arrivals\<close> are the file lists handed to \<^verbatim>\<open>handleEmployeesUpload\<close> while the
  round is suspended in an \<^verbatim>\<open>await\<close>, in order; they only append to the list, so where
  among the awaits they arrive makes no difference to the updates of the round.
\<close>

definition processPendingImages :: "Env \<Rightarrow> File list list \<Rightarrow> App \<Rightarrow> App \<times> Call list" where
  "processPendingImages env arrivals st =
     (case roundStart st of
        None \<Rightarrow> (st, [])
      | Some (imagesToProcess, logo, started) \<Rightarrow>
          roundFinish env imagesToProcess (masterBackground st) logo
            (fold (handleEmployeesUpload env) arrivals started))"

text \<open>The \<^verbatim>\<open>useEffect\<close> that starts a round.\<close>

definition effect :: "Env \<Rightarrow> File list list \<Rightarrow> App \<Rightarrow> App \<times> Call list" where
  "effect env arrivals st =
     (if list_ex (\<lambda>img. status img = st_pending) (employeeImages st)
         \<and> appState st \<noteq> processing_photos
      then processPendingImages env arrivals st
      else (st, []))"

text \<open>
  Sessions. The handlers and the round are asynchronous: each runs up to an \<^verbatim>\<open>await\<close>,
  and what follows the \<^verbatim>\<open>await\<close> runs later, after whatever else happened meanwhile. A
  session state therefore holds, besides the component's state, what is suspended: the
  rounds waiting for \<^verbatim>\<open>generateMasterBackground\<close> or for \<^verbatim>\<open>Promise.allSettled\<close>, each
  with what its callback closed over (the batch, the logo, the service it talks to), and
  the logo conversions under way, each with the outcome it will settle with. It also holds
  the calls issued so far.
\<close>

datatype Phase = AwaitingBackground | AwaitingTasks Base64Image

record Suspended =
  su_env :: Env
  su_batch :: "EmployeeImage list"
  su_logo :: Base64Image
  su_phase :: Phase

record Session =
  app :: App
  suspended :: "Suspended list"
  converting :: "(Thrown + Base64Image) list"
  issued :: "Call list"

definition initialSession :: Session where
  "initialSession = \<lparr>app = initialApp, suspended = [], converting = [], issued = []\<rparr>"

definition removeAt :: "nat \<Rightarrow> 'a list \<Rightarrow> 'a list" where
  "removeAt k xs = take k xs @ drop (Suc k) xs"

text \<open>
  The logo uploader is rendered with \<^verbatim>\<open>disabled={isProcessingPhotos}\<close>, and a disabled
  \<^verbatim>\<open>ImageUploader\<close> never calls its handler. Otherwise \<^verbatim>\<open>handleLogoUpload\<close> runs up to
  \<^verbatim>\<open>await convertImageToBase64(files[0], ...)\<close>.
\<close>

definition selectLogo :: "Env \<Rightarrow> File list \<Rightarrow> Session \<Rightarrow> Session" where
  "selectLogo env files s =
     (if appState (app s) = processing_photos then s
      else (case files of
              [] \<Rightarrow> s
            | file # others \<Rightarrow>
                s\<lparr>converting := converting s
                     @ [convertImageToBase64 (browser env) file \<lparr>cropToSquare = False\<rparr>],
                  issued := issued s @ [ConvertImageToBase64 file False]\<rparr>))"

text \<open>What follows the \<^verbatim>\<open>await\<close> in \<^verbatim>\<open>handleLogoUpload\<close>, for the conversion at position
  \<open>k\<close>: \<^verbatim>\<open>setCompanyLogo\<close> and \<^verbatim>\<open>setAppState('needs_photos')\<close>, whatever the state is by
  then, or the \<^verbatim>\<open>catch\<close> that only logs.\<close>

definition logoConverted :: "nat \<Rightarrow> Session \<Rightarrow> Session" where
  "logoConverted k s =
     (if k < length (converting s) then
        (case converting s ! k of
           Inr logoBase64 \<Rightarrow>
             s\<lparr>app := (app s)\<lparr>companyLogo := Some logoBase64, appState := needs_photos\<rparr>,
               converting := removeAt k (converting s)\<rparr>
         | Inl thrown \<Rightarrow> s\<lparr>converting := removeAt k (converting s)\<rparr>)
      else s)"

text \<open>The photo uploader is rendered with
  \<^verbatim>\<open>disabled={!companyLogo || isProcessingPhotos}\<close>; the reset button is rendered when the
  list is not empty, with \<^verbatim>\<open>disabled={isProcessingPhotos}\<close>.\<close>

definition selectPhotos :: "Env \<Rightarrow> File list \<Rightarrow> Session \<Rightarrow> Session" where
  "selectPhotos env files s =
     (if companyLogo (app s) = None \<or> appState (app s) = processing_photos then s
      else s\<lparr>app := handleEmployeesUpload env files (app s)\<rparr>)"

definition clickReset :: "Session \<Rightarrow> Session" where
  "clickReset s =
     (if employeeImages (app s) = [] \<or> appState (app s) = processing_photos then s
      else s\<lparr>app := handleReset (app s)\<rparr>)"

text \<open>
  The \<^verbatim>\<open>useEffect\<close> after a render: under its guard it calls \<^verbatim>\<open>processPendingImages\<close>,
  which runs up to its first \<^verbatim>\<open>await\<close>. With no master background in the state the
  callback closed over, that is \<^verbatim>\<open>await generateMasterBackground()\<close>; with one, the tasks
  are started and it is \<^verbatim>\<open>await Promise.allSettled(...)\<close>.
\<close>

definition runEffect :: "Env \<Rightarrow> Session \<Rightarrow> Session" where
  "runEffect env s =
     (if list_ex (\<lambda>img. status img = st_pending) (employeeImages (app s))
         \<and> appState (app s) \<noteq> processing_photos
      then
        (case roundStart (app s) of
           None \<Rightarrow> s
         | Some (imagesToProcess, logo, started) \<Rightarrow>
             (case masterBackground (app s) of
                None \<Rightarrow>
                  s\<lparr>app := started,
                    suspended := suspended s
                      @ [\<lparr>su_env = env, su_batch = imagesToProcess, su_logo = logo,
                          su_phase = AwaitingBackground\<rparr>],
                    issued := issued s @ [GenerateMasterBackground]\<rparr>
              | Some currentMasterBackground \<Rightarrow>
                  s\<lparr>app := started,
                    suspended := suspended s
                      @ [\<lparr>su_env = env, su_batch = imagesToProcess, su_logo = logo,
                          su_phase = AwaitingTasks currentMasterBackground\<rparr>],
                    issued := issued s
                      @ snd (fanOutFanIn env imagesToProcess currentMasterBackground logo
                               started)\<rparr>))
      else s)"

text \<open>What follows \<^verbatim>\<open>await generateMasterBackground()\<close> in the suspended round at
  position \<open>k\<close>: on failure the bulk update to \<^verbatim>\<open>error\<close>, \<^verbatim>\<open>setAppState('idle')\<close> and the
  end of the round; on success \<^verbatim>\<open>setMasterBackground\<close> and the start of the tasks.\<close>

definition backgroundSettled :: "nat \<Rightarrow> Session \<Rightarrow> Session" where
  "backgroundSettled k s =
     (if k < length (suspended s) then
        (let r = suspended s ! k in
         case su_phase r of
           AwaitingTasks background \<Rightarrow> s
         | AwaitingBackground \<Rightarrow>
             (case fst (generateMasterBackground (su_env r)) of
                Inl thrown \<Rightarrow>
                  s\<lparr>app := (app s)\<lparr>employeeImages :=
                               markError (su_batch r)
                                 (messageOr thrown ''Master background generation failed.'')
                                 (employeeImages (app s)),
                             appState := idle\<rparr>,
                    suspended := removeAt k (suspended s)\<rparr>
              | Inr bgDataUrl \<Rightarrow>
                  (let currentMasterBackground =
                         \<lparr>base64 = index_opt (split_comma bgDataUrl) 1, mimeType = ''image/png''\<rparr>
                   in s\<lparr>app := (app s)\<lparr>masterBackground := Some currentMasterBackground\<rparr>,
                        suspended := (suspended s)
                          [k := r\<lparr>su_phase := AwaitingTasks currentMasterBackground\<rparr>],
                        issued := issued s
                          @ snd (fanOutFanIn (su_env r) (su_batch r) currentMasterBackground
                                   (su_logo r) (app s))\<rparr>)))
      else s)"

text \<open>What follows \<^verbatim>\<open>await Promise.allSettled(...)\<close> in the suspended round at position
  \<open>k\<close>: the fan-in and \<^verbatim>\<open>setAppState('idle')\<close>, on the state as it is by then.\<close>

definition tasksSettled :: "nat \<Rightarrow> Session \<Rightarrow> Session" where
  "tasksSettled k s =
     (if k < length (suspended s) then
        (let r = suspended s ! k in
         case su_phase r of
           AwaitingBackground \<Rightarrow> s
         | AwaitingTasks currentMasterBackground \<Rightarrow>
             s\<lparr>app := fst (fanOutFanIn (su_env r) (su_batch r) currentMasterBackground
                             (su_logo r) (app s)),
               suspended := removeAt k (suspended s)\<rparr>)
      else s)"

text \<open>
  A session is a sequence of such steps. In the running program the effect follows every
  render; an effect whose guard fails changes nothing, so a session may leave it out there.
\<close>

datatype Step =
    SelectLogo Env "File list"
  | LogoConverted nat
  | SelectPhotos Env "File list"
  | ClickReset
  | RunEffect Env
  | BackgroundSettled nat
  | TasksSettled nat

fun step :: "Step \<Rightarrow> Session \<Rightarrow> Session" where
  "step (SelectLogo env files) s = selectLogo env files s"
| "step (LogoConverted k) s = logoConverted k s"
| "step (SelectPhotos env files) s = selectPhotos env files s"
| "step ClickReset s = clickReset s"
| "step (RunEffect env) s = runEffect env s"
| "step (BackgroundSettled k) s = backgroundSettled k s"
| "step (TasksSettled k) s = tasksSettled k s"

fun run :: "Step list \<Rightarrow> Session \<Rightarrow> Session" where
  "run [] s = s"
| "run (x # steps) s = run steps (step x s)"

subsection \<open>Sample surroundings\<close>

text \<open>A browser that loads every file as a 1200 by 800 image, a service that answers every
  request with one inline image, a service that refuses every background request, one
  whose headshot calls fail for the job at one position of the batch only, one that
  generates another background, and four files.\<close>

definition sampleBrowser :: Browser where
  "sampleBrowser =
     \<lparr>readAsDataURL = (\<lambda>file. ReaderLoaded (Some (''data:image/jpeg;base64,'' @ file_name file))),
      loadImage = (\<lambda>src. ImageLoaded 1200 800),
      getContext2d = True,
      toDataURL = (\<lambda>src canvas type. ''data:'' @ type @ '';base64,cGl4ZWxz''),
      createObjectURL = (\<lambda>file. ''blob:'' @ file_name file)\<rparr>"

definition imageResponse :: "string \<Rightarrow> Outcome" where
  "imageResponse d = Inr (responseWith [inlinePart d ''image/png''])"

definition sampleEnv :: Env where
  "sampleEnv =
     \<lparr>browser = sampleBrowser,
      backgroundService = (\<lambda>k. imageResponse ''YmFja2dyb3VuZA=='' ),
      headshotService = (\<lambda>position employeeImage background logo k. imageResponse ''aGVhZHNob3Q='')\<rparr>"

definition noBackgroundEnv :: Env where
  "noBackgroundEnv =
     \<lparr>browser = sampleBrowser,
      backgroundService = (\<lambda>k. Inl (ErrorObj ''503 Service Unavailable'')),
      headshotService = (\<lambda>position employeeImage background logo k. imageResponse ''aGVhZHNob3Q='')\<rparr>"

definition failingAt :: "nat \<Rightarrow> Env" where
  "failingAt p =
     \<lparr>browser = sampleBrowser,
      backgroundService = (\<lambda>k. imageResponse ''YmFja2dyb3VuZA=='' ),
      headshotService = (\<lambda>position employeeImage background logo k.
         if position = p then Inl (ErrorObj ''503 Service Unavailable'')
         else imageResponse ''aGVhZHNob3Q='')\<rparr>"

definition secondEnv :: Env where
  "secondEnv =
     \<lparr>browser = sampleBrowser,
      backgroundService = (\<lambda>k. imageResponse ''c2Vjb25k''),
      headshotService = (\<lambda>position employeeImage background logo k. imageResponse ''aGVhZHNob3Q='')\<rparr>"

definition annaFile :: File where
  "annaFile = \<lparr>file_name = ''anna.jpg'', file_lastModified = 1700000000000\<rparr>"

definition benFile :: File where
  "benFile = \<lparr>file_name = ''ben.jpg'', file_lastModified = 1700000000001\<rparr>"

definition caraFile :: File where
  "caraFile = \<lparr>file_name = ''cara.jpg'', file_lastModified = 1700000000002\<rparr>"

definition logoFile :: File where
  "logoFile = \<lparr>file_name = ''logo.png'', file_lastModified = 1600000000000\<rparr>"

text \<open>The state after a logo was uploaded and two photographs were selected.\<close>

definition loadedApp :: App where
  "loadedApp =
     handleEmployeesUpload sampleEnv [annaFile, benFile]
       (handleLogoUpload sampleEnv [logoFile] initialApp)"

text \<open>
  A session in which the logo is replaced while photographs are being submitted. A logo is
  in place; a second logo is selected and its conversion is still under way when the first
  photograph is selected and its round starts; the conversion then lands, and a second
  photograph is selected while the first round still waits for its master background.
\<close>

definition replacedLogoSession :: "Step list" where
  "replacedLogoSession =
     [SelectLogo sampleEnv [logoFile], LogoConverted 0,
      SelectLogo sampleEnv [logoFile],
      SelectPhotos sampleEnv [annaFile], RunEffect sampleEnv,
      LogoConverted 0,
      SelectPhotos sampleEnv [benFile]]"

section \<open>Properties of the retrying call wrapper\<close>

lemma string_of_nat_3: "string_of_nat 3 = ''3''"
  by (simp add: string_of_nat.simps digit_char_def)

lemma string_of_nat_digits: "string_of_nat 1 = ''1''" "string_of_nat 2 = ''2''"
  by (simp_all add: string_of_nat.simps digit_char_def)

text \<open>One unfolding of the loop, by what its iteration does.\<close>

lemma retryLoop_exhausted:
  "\<not> attempt \<le> MAX_RETRIES \<Longrightarrow>
   retryLoop requestFn requestName attempt lastError =
     (Inl (ErrorObj (finalErrorMessage requestName lastError)),
      [ConsoleError (''All retries failed for '' @ requestName @ ''.'')])"
  by (subst retryLoop.simps) simp

lemma retryLoop_success:
  "attempt \<le> MAX_RETRIES \<Longrightarrow> tryAttempt requestName (requestFn attempt) = Inr url \<Longrightarrow>
   retryLoop requestFn requestName attempt lastError = (Inr url, [Invoke])"
  by (subst retryLoop.simps) simp

lemma retryLoop_failure:
  "attempt \<le> MAX_RETRIES \<Longrightarrow> tryAttempt requestName (requestFn attempt) = Inl thrown \<Longrightarrow>
   retryLoop requestFn requestName attempt lastError =
     (fst (retryLoop requestFn requestName (attempt + 1) (Some (recordedMessage thrown))),
      [Invoke, ConsoleError (attemptLogLine requestName attempt)]
        @ (if attempt < MAX_RETRIES then [Delay (1000 * (attempt + 1))] else [])
        @ snd (retryLoop requestFn requestName (attempt + 1) (Some (recordedMessage thrown))))"
  by (subst retryLoop.simps) (simp add: case_prod_beta)

text \<open>The four runs the wrapper can make.\<close>

lemma retry_first:
  "tryAttempt requestName (requestFn 0) = Inr url \<Longrightarrow>
   retryableRequest requestFn requestName = (Inr url, [Invoke])"
  by (simp add: retryableRequest_def retryLoop_success)

lemma retry_second:
  "tryAttempt requestName (requestFn 0) = Inl t0 \<Longrightarrow>
   tryAttempt requestName (requestFn 1) = Inr url \<Longrightarrow>
   retryableRequest requestFn requestName =
     (Inr url, [Invoke, ConsoleError (attemptLogLine requestName 0), Delay 1000, Invoke])"
  by (simp add: retryableRequest_def retryLoop_failure retryLoop_success MAX_RETRIES_def)

lemma retry_third:
  "tryAttempt requestName (requestFn 0) = Inl t0 \<Longrightarrow>
   tryAttempt requestName (requestFn 1) = Inl t1 \<Longrightarrow>
   tryAttempt requestName (requestFn 2) = Inr url \<Longrightarrow>
   retryableRequest requestFn requestName =
     (Inr url, [Invoke, ConsoleError (attemptLogLine requestName 0), Delay 1000,
                Invoke, ConsoleError (attemptLogLine requestName 1), Delay 2000, Invoke])"
  by (simp add: retryableRequest_def retryLoop_failure retryLoop_success MAX_RETRIES_def
      numeral_2_eq_2)

lemma retry_exhausted:
  "tryAttempt requestName (requestFn 0) = Inl t0 \<Longrightarrow>
   tryAttempt requestName (requestFn 1) = Inl t1 \<Longrightarrow>
   tryAttempt requestName (requestFn 2) = Inl t2 \<Longrightarrow>
   retryableRequest requestFn requestName =
     (Inl (ErrorObj (finalErrorMessage requestName (Some (recordedMessage t2)))),
      [Invoke, ConsoleError (attemptLogLine requestName 0), Delay 1000,
       Invoke, ConsoleError (attemptLogLine requestName 1), Delay 2000,
       Invoke, ConsoleError (attemptLogLine requestName 2),
       ConsoleError (''All retries failed for '' @ requestName @ ''.'')])"
  by (simp add: retryableRequest_def retryLoop_failure retryLoop_exhausted MAX_RETRIES_def
      numeral_2_eq_2)

lemma invocations_simps:
  "invocations [] = 0"
  "invocations (Invoke # evs) = Suc (invocations evs)"
  "invocations (ConsoleError l # evs) = invocations evs"
  "invocations (Delay ms # evs) = invocations evs"
  by (simp_all add: invocations_def)

lemma retry_success_at:
  assumes "k \<le> MAX_RETRIES"
    and "\<forall>j<k. isl (tryAttempt requestName (requestFn j))"
    and "tryAttempt requestName (requestFn k) = Inr url"
  shows "fst (retryableRequest requestFn requestName) = Inr url"
    and "invocations (snd (retryableRequest requestFn requestName)) = k + 1"
proof -
  consider "k = 0" | "k = 1" | "k = 2"
    using assms(1) unfolding MAX_RETRIES_def by atomize_elim arith
  then have "fst (retryableRequest requestFn requestName) = Inr url
      \<and> invocations (snd (retryableRequest requestFn requestName)) = k + 1"
  proof cases
    case 1
    with assms(3) show ?thesis
      by (simp add: retry_first invocations_simps)
  next
    case 2
    with assms(2) obtain t0 where "tryAttempt requestName (requestFn 0) = Inl t0"
      by (auto simp: isl_def)
    with 2 assms(3) show ?thesis
      by (simp add: retry_second invocations_simps)
  next
    case 3
    with assms(2) have "isl (tryAttempt requestName (requestFn 0))"
      "isl (tryAttempt requestName (requestFn 1))"
      by simp_all
    then obtain t0 t1 where "tryAttempt requestName (requestFn 0) = Inl t0"
      "tryAttempt requestName (requestFn 1) = Inl t1"
      by (auto simp: isl_def)
    with 3 assms(3) show ?thesis
      by (simp add: retry_third invocations_simps)
  qed
  then show "fst (retryableRequest requestFn requestName) = Inr url"
    and "invocations (snd (retryableRequest requestFn requestName)) = k + 1"
    by simp_all
qed

lemma retry_all_fail:
  assumes "\<forall>j<3. isl (tryAttempt requestName (requestFn j))"
  shows "retryableRequest requestFn requestName =
     (Inl (ErrorObj (finalErrorMessage requestName
        (Some (recordedMessage (projl (tryAttempt requestName (requestFn 2))))))),
      [Invoke, ConsoleError (attemptLogLine requestName 0), Delay 1000,
       Invoke, ConsoleError (attemptLogLine requestName 1), Delay 2000,
       Invoke, ConsoleError (attemptLogLine requestName 2),
       ConsoleError (''All retries failed for '' @ requestName @ ''.'')])"
proof -
  from assms have "isl (tryAttempt requestName (requestFn 0))"
      "isl (tryAttempt requestName (requestFn 1))" "isl (tryAttempt requestName (requestFn 2))"
    by simp_all
  then obtain t0 t1 t2 where "tryAttempt requestName (requestFn 0) = Inl t0"
      "tryAttempt requestName (requestFn 1) = Inl t1"
      "tryAttempt requestName (requestFn 2) = Inl t2"
    by (auto simp: isl_def)
  then show ?thesis
    by (simp add: retry_exhausted)
qed

lemma finalErrorMessage_text:
  "finalErrorMessage requestName (Some message) =
     requestName @ '' failed after 3 attempts. Last error: ''
       @ (if message = [] then ''Unknown'' else message)"
  by (simp add: finalErrorMessage_def lastErrorText_def truthy_def MAX_RETRIES_def string_of_nat_3)

text \<open>What the \<^verbatim>\<open>try\<close> block returns, read off the response: it returns exactly when the
  first candidate has content with parts and some part carries non-empty inline data.\<close>

lemma scanParts_first:
  "\<forall>p\<in>set before. \<not> truthy_opt (partData p) \<Longrightarrow> partData part = Some payload \<Longrightarrow>
   payload \<noteq> [] \<Longrightarrow>
   scanParts (before @ part # after) = Some (''data:image/png;base64,'' @ payload)"
  by (induction before) (auto simp: truthy_opt_def truthy_def split: option.splits)

lemma scanParts_None_iff:
  "scanParts parts = None \<longleftrightarrow> (\<forall>p\<in>set parts. \<not> truthy_opt (partData p))"
  by (induction parts) (auto simp: truthy_opt_def truthy_def split: option.splits)

lemma tryAttempt_Inr_iff:
  "tryAttempt requestName outcome = Inr url \<longleftrightarrow>
     (\<exists>result parts. outcome = Inr result \<and> candidateParts result = Some parts \<and>
        scanParts parts = Some url)"
  by (auto simp: tryAttempt_def split: sum.splits option.splits)

text \<open>
  C2. When every attempt fails, the operation is invoked exactly 3 times and the wrapper
  throws an \<^verbatim>\<open>Error\<close> whose message is the operation name, then
  \<^verbatim>\<open> failed after 3 attempts. Last error: \<close>, then the message recorded for the third
  attempt (\<^verbatim>\<open>Unknown\<close> in place of an empty one); so the message contains the name, the
  attempt count and the last recorded message. When the \<open>k\<close>-th attempt (\<open>1 \<le> k \<le> 3\<close>) is the
  first whose \<^verbatim>\<open>try\<close> block returns a data URL, the operation is invoked exactly \<open>k\<close>
  times and the wrapper returns that URL.
\<close>

theorem retryableRequest_attempt_count:
  "((\<forall>j<3. isl (tryAttempt requestName (requestFn j))) \<longrightarrow>
      invocations (snd (retryableRequest requestFn requestName)) = 3 \<and>
      (\<exists>message. fst (retryableRequest requestFn requestName) = Inl (ErrorObj message) \<and>
         message = requestName @ '' failed after 3 attempts. Last error: ''
           @ (if recordedMessage (projl (tryAttempt requestName (requestFn 2))) = []
              then ''Unknown''
              else recordedMessage (projl (tryAttempt requestName (requestFn 2)))) \<and>
         sublist requestName message \<and> sublist ''3 attempts'' message \<and>
         sublist (recordedMessage (projl (tryAttempt requestName (requestFn 2)))) message))
   \<and>
   (1 \<le> k \<and> k \<le> 3 \<and> (\<forall>j<k - 1. isl (tryAttempt requestName (requestFn j))) \<and>
      tryAttempt requestName (requestFn (k - 1)) = Inr url \<longrightarrow>
      invocations (snd (retryableRequest requestFn requestName)) = k \<and>
      fst (retryableRequest requestFn requestName) = Inr url)"
proof (intro conjI impI)
  assume fails: "\<forall>j<3. isl (tryAttempt requestName (requestFn j))"
  let ?m = "recordedMessage (projl (tryAttempt requestName (requestFn 2)))"
  show "invocations (snd (retryableRequest requestFn requestName)) = 3"
    by (simp add: retry_all_fail [OF fails] invocations_simps)
  let ?message = "requestName @ '' failed after 3 attempts. Last error: ''
           @ (if ?m = [] then ''Unknown'' else ?m)"
  have 1: "fst (retryableRequest requestFn requestName) = Inl (ErrorObj ?message)"
    by (simp add: retry_all_fail [OF fails] finalErrorMessage_text)
  have 2: "sublist requestName ?message"
    by (rule sublist_append_rightI)
  have "sublist ''3 attempts'' ((requestName @ '' failed after '') @ ''3 attempts'' @ (''. Last error: ''
           @ (if ?m = [] then ''Unknown'' else ?m)))"
    by (rule sublist_appendI)
  then have 3: "sublist ''3 attempts'' ?message"
    by simp
  have 4: "sublist ?m ?message"
  proof (cases "?m = []")
    case True
    then show ?thesis by simp
  next
    case False
    have "sublist ?m ((requestName @ '' failed after 3 attempts. Last error: '') @ ?m)"
      by (rule sublist_append_leftI)
    with False show ?thesis by simp
  qed
  from 1 2 3 4 show "\<exists>message. fst (retryableRequest requestFn requestName) = Inl (ErrorObj message) \<and>
         message = ?message \<and>
         sublist requestName message \<and> sublist ''3 attempts'' message \<and>
         sublist ?m message"
    by blast
next
  assume h: "1 \<le> k \<and> k \<le> 3 \<and> (\<forall>j<k - 1. isl (tryAttempt requestName (requestFn j))) \<and>
      tryAttempt requestName (requestFn (k - 1)) = Inr url"
  then have "k - 1 \<le> MAX_RETRIES"
    unfolding MAX_RETRIES_def by arith
  from retry_success_at(2) [OF this] h
  show "invocations (snd (retryableRequest requestFn requestName)) = k"
    by simp
next
  assume h: "1 \<le> k \<and> k \<le> 3 \<and> (\<forall>j<k - 1. isl (tryAttempt requestName (requestFn j))) \<and>
      tryAttempt requestName (requestFn (k - 1)) = Inr url"
  then have "k - 1 \<le> MAX_RETRIES"
    unfolding MAX_RETRIES_def by arith
  from retry_success_at(1) [OF this] h
  show "fst (retryableRequest requestFn requestName) = Inr url"
    by simp
qed

lemma tryAttempt_samples:
  "tryAttempt requestName (Inl thrown) = Inl thrown"
  "tryAttempt requestName (Inr (responseWith [textPart t, inlinePart ''QUJD'' m, inlinePart ''REVG'' m'])) =
     Inr ''data:image/png;base64,QUJD''"
  by (simp_all add: tryAttempt_def responseWith_def textPart_def inlinePart_def candidateParts_def
      firstCandidate_def partData_def truthy_def)

theorem retryableRequest_attempt_count_witness:
  "(isl (tryAttempt ''Op'' ((\<lambda>j::nat. Inl (ErrorObj ''boom'')) 0)) \<and>
    isl (tryAttempt ''Op'' ((\<lambda>j::nat. Inl (ErrorObj ''boom'')) 1)) \<and>
    isl (tryAttempt ''Op'' ((\<lambda>j::nat. Inl (ErrorObj ''boom'')) 2)) \<and>
      invocations (snd (retryableRequest (\<lambda>j::nat. Inl (ErrorObj ''boom'')) ''Op'')) = 3 \<and>
      fst (retryableRequest (\<lambda>j::nat. Inl (ErrorObj ''boom'')) ''Op'') =
        Inl (ErrorObj ''Op failed after 3 attempts. Last error: boom''))
   \<and>
   ((1::nat) \<le> 2 \<and> (2::nat) \<le> 3 \<and>
      isl (tryAttempt ''Op''
          ((\<lambda>j::nat. if j = 1 then Inr (responseWith [inlinePart ''QUJD'' ''image/png''])
                     else Inl NonError) 0)) \<and>
      tryAttempt ''Op''
          ((\<lambda>j::nat. if j = 1 then Inr (responseWith [inlinePart ''QUJD'' ''image/png''])
                     else Inl NonError) (2 - 1))
        = Inr ''data:image/png;base64,QUJD'' \<and>
      invocations (snd (retryableRequest
          (\<lambda>j::nat. if j = 1 then Inr (responseWith [inlinePart ''QUJD'' ''image/png''])
                     else Inl NonError) ''Op'')) = 2 \<and>
      fst (retryableRequest
          (\<lambda>j::nat. if j = 1 then Inr (responseWith [inlinePart ''QUJD'' ''image/png''])
                     else Inl NonError) ''Op'')
        = Inr ''data:image/png;base64,QUJD'')"
proof -
  let ?f = "\<lambda>j::nat. (Inl (ErrorObj ''boom'') :: Outcome)"
  let ?g = "\<lambda>j::nat. if j = 1 then Inr (responseWith [inlinePart ''QUJD'' ''image/png''])
                      else (Inl NonError :: Outcome)"
  have f: "\<forall>j<3. isl (tryAttempt ''Op'' (?f j))"
    by (simp add: tryAttempt_def)
  have g: "(1::nat) \<le> 2 \<and> (2::nat) \<le> 3 \<and> (\<forall>j<2 - 1. isl (tryAttempt ''Op'' (?g j))) \<and>
      tryAttempt ''Op'' (?g (2 - 1)) = Inr ''data:image/png;base64,QUJD''"
    by (simp add: tryAttempt_def responseWith_def inlinePart_def candidateParts_def
      firstCandidate_def partData_def truthy_def)
  from f retryableRequest_attempt_count [of "''Op''" ?f]
  have 1: "invocations (snd (retryableRequest ?f ''Op'')) = 3 \<and>
      fst (retryableRequest ?f ''Op'') = Inl (ErrorObj ''Op failed after 3 attempts. Last error: boom'')"
    by (simp add: tryAttempt_def recordedMessage_def)
  from g retryableRequest_attempt_count [of "''Op''" ?g 2 "''data:image/png;base64,QUJD''"]
  have 2: "invocations (snd (retryableRequest ?g ''Op'')) = 2 \<and>
      fst (retryableRequest ?g ''Op'') = Inr ''data:image/png;base64,QUJD''"
    by blast
  have e: "isl (tryAttempt ''Op'' (Inl (ErrorObj ''boom'')))"
    by (simp add: tryAttempt_def)
  from e g 1 2 show ?thesis by simp
qed



lemma tryAttempt_imageResponse:
  "d \<noteq> [] \<Longrightarrow> tryAttempt requestName (imageResponse d) = Inr (''data:image/png;base64,'' @ d)"
  by (simp add: tryAttempt_def imageResponse_def responseWith_def inlinePart_def
      candidateParts_def firstCandidate_def partData_def truthy_def)

text \<open>
  C7. The wrapper sleeps only between a failed attempt and the retry that follows it, never
  after the final attempt, and the delay before retry number \<open>n\<close> is \<open>1000 * n\<close>
  milliseconds. When the first attempt returns there is no delay. When it fails, the log
  line of the failure is followed by a delay of 1000 ms and then by the second invocation;
  when the second attempt fails too, its log line is followed by a delay of 2000 ms and
  then by the third invocation; when the third attempt fails as well, its log line is
  followed by the final log line and no delay. So a run with \<open>i\<close> invocations sleeps
  \<open>i - 1\<close> times, for \<open>1000 * 1, \<dots>, 1000 * (i - 1)\<close> milliseconds, and its last event
  is never a delay.
\<close>

theorem retryableRequest_backoff:
  "(\<not> isl (tryAttempt requestName (requestFn 0)) \<longrightarrow>
      snd (retryableRequest requestFn requestName) = [Invoke]) \<and>
   (isl (tryAttempt requestName (requestFn 0)) \<and>
    \<not> isl (tryAttempt requestName (requestFn 1)) \<longrightarrow>
      snd (retryableRequest requestFn requestName) =
        [Invoke, ConsoleError (attemptLogLine requestName 0), Delay (1000 * 1), Invoke]) \<and>
   (isl (tryAttempt requestName (requestFn 0)) \<and>
    isl (tryAttempt requestName (requestFn 1)) \<and>
    \<not> isl (tryAttempt requestName (requestFn 2)) \<longrightarrow>
      snd (retryableRequest requestFn requestName) =
        [Invoke, ConsoleError (attemptLogLine requestName 0), Delay (1000 * 1),
         Invoke, ConsoleError (attemptLogLine requestName 1), Delay (1000 * 2), Invoke]) \<and>
   (isl (tryAttempt requestName (requestFn 0)) \<and>
    isl (tryAttempt requestName (requestFn 1)) \<and>
    isl (tryAttempt requestName (requestFn 2)) \<longrightarrow>
      snd (retryableRequest requestFn requestName) =
        [Invoke, ConsoleError (attemptLogLine requestName 0), Delay (1000 * 1),
         Invoke, ConsoleError (attemptLogLine requestName 1), Delay (1000 * 2),
         Invoke, ConsoleError (attemptLogLine requestName 2),
         ConsoleError (''All retries failed for '' @ requestName @ ''.'')]) \<and>
   (\<forall>n. 1 \<le> n \<and> n \<le> 2 \<and> (\<forall>j<n. isl (tryAttempt requestName (requestFn j))) \<longrightarrow>
      n \<le> length (delays (snd (retryableRequest requestFn requestName))) \<and>
      delays (snd (retryableRequest requestFn requestName)) ! (n - 1) = 1000 * n \<and>
      n < invocations (snd (retryableRequest requestFn requestName))) \<and>
   delays (snd (retryableRequest requestFn requestName)) =
     map (\<lambda>n. 1000 * n) [1..<invocations (snd (retryableRequest requestFn requestName))] \<and>
   snd (retryableRequest requestFn requestName) \<noteq> [] \<and>
   (\<forall>ms. last (snd (retryableRequest requestFn requestName)) \<noteq> Delay ms)"
proof -
  let ?t = "\<lambda>j. tryAttempt requestName (requestFn j)"
  consider url where "?t 0 = Inr url"
    | t0 url where "?t 0 = Inl t0" "?t 1 = Inr url"
    | t0 t1 url where "?t 0 = Inl t0" "?t 1 = Inl t1" "?t 2 = Inr url"
    | t0 t1 t2 where "?t 0 = Inl t0" "?t 1 = Inl t1" "?t 2 = Inl t2"
    by (metis sum.exhaust)
  then show ?thesis
  proof cases
    case 1
    have "\<not> (1 \<le> n \<and> n \<le> 2 \<and> (\<forall>j<n. isl (?t j)))" for n
      using 1 by (cases n) auto
    with 1 show ?thesis
      by (simp add: retry_first invocations_simps)
  next
    case 2
    have "n = 1" if "1 \<le> n \<and> n \<le> 2 \<and> (\<forall>j<n. isl (?t j))" for n
    proof -
      have "n \<noteq> 2"
      proof
        assume "n = 2"
        with that have "isl (?t 1)" by simp
        with 2 show False by simp
      qed
      with that show ?thesis by arith
    qed
    with 2 show ?thesis
      by (auto simp: retry_second invocations_simps)
  next
    case 3
    have "n \<le> length (delays (snd (retryableRequest requestFn requestName))) \<and>
      delays (snd (retryableRequest requestFn requestName)) ! (n - 1) = 1000 * n \<and>
      n < invocations (snd (retryableRequest requestFn requestName))"
      if "1 \<le> n \<and> n \<le> 2" for n
    proof -
      from that have "n = 1 \<or> n = 2" by arith
      with 3 show ?thesis
        by (auto simp: retry_third invocations_simps)
    qed
    with 3 show ?thesis
      by (simp add: retry_third invocations_simps upt_rec)
  next
    case 4
    have "n \<le> length (delays (snd (retryableRequest requestFn requestName))) \<and>
      delays (snd (retryableRequest requestFn requestName)) ! (n - 1) = 1000 * n \<and>
      n < invocations (snd (retryableRequest requestFn requestName))"
      if "1 \<le> n \<and> n \<le> 2" for n
    proof -
      from that have "n = 1 \<or> n = 2" by arith
      with 4 show ?thesis
        by (auto simp: retry_exhausted invocations_simps)
    qed
    with 4 show ?thesis
      by (simp add: retry_exhausted invocations_simps upt_rec)
  qed
qed

theorem retryableRequest_backoff_witness:
  "snd (retryableRequest (\<lambda>j::nat. imageResponse ''QUJD'') ''Op'') = [Invoke] \<and>
   snd (retryableRequest
          (\<lambda>j::nat. if j = 1 then imageResponse ''QUJD'' else Inl NonError) ''Op'') =
     [Invoke, ConsoleError ''Error on Op attempt 1/3:'', Delay 1000, Invoke] \<and>
   snd (retryableRequest
          (\<lambda>j::nat. if j = 2 then imageResponse ''QUJD'' else Inl NonError) ''Op'') =
     [Invoke, ConsoleError ''Error on Op attempt 1/3:'', Delay 1000,
      Invoke, ConsoleError ''Error on Op attempt 2/3:'', Delay 2000, Invoke] \<and>
   snd (retryableRequest (\<lambda>j::nat. Inl NonError) ''Op'') =
     [Invoke, ConsoleError ''Error on Op attempt 1/3:'', Delay 1000,
      Invoke, ConsoleError ''Error on Op attempt 2/3:'', Delay 2000,
      Invoke, ConsoleError ''Error on Op attempt 3/3:'',
      ConsoleError ''All retries failed for Op.''] \<and>
   delays (snd (retryableRequest (\<lambda>j::nat. Inl NonError) ''Op'')) ! (2 - 1) = 1000 * 2"
proof -
  let ?a = "\<lambda>j::nat. imageResponse ''QUJD''"
  let ?b = "\<lambda>j::nat. if j = 1 then imageResponse ''QUJD'' else (Inl NonError :: Outcome)"
  let ?c = "\<lambda>j::nat. if j = 2 then imageResponse ''QUJD'' else (Inl NonError :: Outcome)"
  let ?d = "\<lambda>j::nat. (Inl NonError :: Outcome)"
  have ok: "\<not> isl (tryAttempt ''Op'' (imageResponse ''QUJD''))"
    by (simp add: tryAttempt_imageResponse)
  have ko: "isl (tryAttempt ''Op'' (Inl NonError))"
    by (simp add: tryAttempt_def)
  have lines: "attemptLogLine ''Op'' 0 = ''Error on Op attempt 1/3:''"
    "attemptLogLine ''Op'' (Suc 0) = ''Error on Op attempt 2/3:''"
    "attemptLogLine ''Op'' 2 = ''Error on Op attempt 3/3:''"
    by (simp_all add: attemptLogLine_def MAX_RETRIES_def string_of_nat.simps digit_char_def)
  have ha: "\<not> isl (tryAttempt ''Op'' (?a 0))"
    using ok by simp
  have hb: "isl (tryAttempt ''Op'' (?b 0)) \<and> \<not> isl (tryAttempt ''Op'' (?b 1))"
    using ok ko by simp
  have hc: "isl (tryAttempt ''Op'' (?c 0)) \<and> isl (tryAttempt ''Op'' (?c 1)) \<and>
      \<not> isl (tryAttempt ''Op'' (?c 2))"
    using ok ko by simp
  have hd: "isl (tryAttempt ''Op'' (?d 0)) \<and> isl (tryAttempt ''Op'' (?d 1)) \<and>
      isl (tryAttempt ''Op'' (?d 2))"
    using ko by simp
  from retryableRequest_backoff [of "''Op''" ?a] ha
  have 1: "snd (retryableRequest ?a ''Op'') = [Invoke]"
    by blast
  from retryableRequest_backoff [of "''Op''" ?b] hb
  have "snd (retryableRequest ?b ''Op'') =
      [Invoke, ConsoleError (attemptLogLine ''Op'' 0), Delay (1000 * 1), Invoke]"
    by blast
  then have 2: "snd (retryableRequest ?b ''Op'') =
      [Invoke, ConsoleError ''Error on Op attempt 1/3:'', Delay 1000, Invoke]"
    by (simp add: lines)
  from retryableRequest_backoff [of "''Op''" ?c] hc
  have "snd (retryableRequest ?c ''Op'') =
      [Invoke, ConsoleError (attemptLogLine ''Op'' 0), Delay (1000 * 1),
       Invoke, ConsoleError (attemptLogLine ''Op'' 1), Delay (1000 * 2), Invoke]"
    by blast
  then have 3: "snd (retryableRequest ?c ''Op'') =
      [Invoke, ConsoleError ''Error on Op attempt 1/3:'', Delay 1000,
       Invoke, ConsoleError ''Error on Op attempt 2/3:'', Delay 2000, Invoke]"
    by (simp add: lines)
  from retryableRequest_backoff [of "''Op''" ?d] hd
  have "snd (retryableRequest ?d ''Op'') =
      [Invoke, ConsoleError (attemptLogLine ''Op'' 0), Delay (1000 * 1),
       Invoke, ConsoleError (attemptLogLine ''Op'' 1), Delay (1000 * 2),
       Invoke, ConsoleError (attemptLogLine ''Op'' 2),
       ConsoleError (''All retries failed for '' @ ''Op'' @ ''.'')]"
    by blast
  then have 4: "snd (retryableRequest ?d ''Op'') =
      [Invoke, ConsoleError ''Error on Op attempt 1/3:'', Delay 1000,
       Invoke, ConsoleError ''Error on Op attempt 2/3:'', Delay 2000,
       Invoke, ConsoleError ''Error on Op attempt 3/3:'',
       ConsoleError ''All retries failed for Op.'']"
    by (simp add: lines)
  have 5: "delays (snd (retryableRequest ?d ''Op'')) ! (2 - 1) = 1000 * 2"
    by (simp add: 4)
  from 1 2 3 4 5 show ?thesis by blast
qed

text \<open>
  C10. When the response of an attempt (all earlier attempts having failed) has several
  parts with inline data, the wrapper returns the payload of the first part, in part order,
  whose \<^verbatim>\<open>inlineData.data\<close> is non-empty, prefixed with the literal
  \<^verbatim>\<open>data:image/png;base64,\<close>, whatever mime type the part declares and whatever parts
  follow it.
\<close>

theorem retryableRequest_first_payload:
  assumes "k \<le> 2"
    and "\<forall>j<k. isl (tryAttempt requestName (requestFn j))"
    and "requestFn k = Inr result"
    and "candidates result = Some (candidate # others)"
    and "cand_content candidate = Some content"
    and "content_parts content = Some (before @ part # after)"
    and "\<forall>p\<in>set before. \<not> truthy_opt (partData p)"
    and "part_inlineData part = Some \<lparr>blob_data = Some payload, blob_mimeType = declaredMime\<rparr>"
    and "payload \<noteq> []"
  shows "fst (retryableRequest requestFn requestName) = Inr (''data:image/png;base64,'' @ payload)"
proof -
  have "partData part = Some payload"
    using assms(8) by (simp add: partData_def)
  then have "scanParts (before @ part # after) = Some (''data:image/png;base64,'' @ payload)"
    using assms(7,9) by (simp add: scanParts_first)
  moreover have "candidateParts result = Some (before @ part # after)"
    using assms(4,5,6) by (simp add: candidateParts_def firstCandidate_def)
  ultimately have "tryAttempt requestName (requestFn k) = Inr (''data:image/png;base64,'' @ payload)"
    using assms(3) by (simp add: tryAttempt_def)
  moreover have "k \<le> MAX_RETRIES"
    using assms(1) by (simp add: MAX_RETRIES_def)
  ultimately show ?thesis
    using assms(2) by (simp add: retry_success_at(1))
qed

theorem retryableRequest_first_payload_witness:
  "(0::nat) \<le> 2 \<and>
   fst (retryableRequest
     (\<lambda>j. Inr (responseWith [textPart ''Here is the image'', inlinePart ''QUJD'' ''image/jpeg'',
                             inlinePart ''REVG'' ''image/png'']))
     ''Headshot Processing'') = Inr ''data:image/png;base64,QUJD''"
  using retryableRequest_first_payload [of 0 "''Headshot Processing''"
     "\<lambda>j. Inr (responseWith [textPart ''Here is the image'', inlinePart ''QUJD'' ''image/jpeg'',
                             inlinePart ''REVG'' ''image/png''])"
     "responseWith [textPart ''Here is the image'', inlinePart ''QUJD'' ''image/jpeg'',
                             inlinePart ''REVG'' ''image/png'']"
     "\<lparr>cand_content = Some \<lparr>content_parts = Some [textPart ''Here is the image'', inlinePart ''QUJD'' ''image/jpeg'',
                             inlinePart ''REVG'' ''image/png'']\<rparr>\<rparr>" "[]"
     "\<lparr>content_parts = Some [textPart ''Here is the image'', inlinePart ''QUJD'' ''image/jpeg'',
                             inlinePart ''REVG'' ''image/png'']\<rparr>"
     "[textPart ''Here is the image'']" "inlinePart ''QUJD'' ''image/jpeg''" "[inlinePart ''REVG'' ''image/png'']"
     "''QUJD''" "Some ''image/jpeg''"]
  by (simp add: responseWith_def textPart_def inlinePart_def partData_def truthy_opt_def)


section \<open>Properties of the canonicalizer\<close>

lemma drawOnCanvas_crop:
  "drawOnCanvas \<lparr>cropToSquare = True\<rparr> w h =
     \<lparr>canvas_width = 965, canvas_height = 965,
      canvas_drawn = [DrawImage9 (if w > h then (real w - real h) / 2 else 0)
                                 (if h > w then (real h - real w) / 2 else 0)
                                 (real (min w h)) (real (min w h)) 0 0 965 965]\<rparr>"
  by (auto simp: drawOnCanvas_def TARGET_DIMENSION_def Let_def min_def)

lemma convert_Inr_iff:
  "convertImageToBase64 brw file options = Inr converted \<longleftrightarrow>
     (\<exists>src width height.
        readAsDataURL brw file = ReaderLoaded (Some src) \<and> src \<noteq> [] \<and>
        loadImage brw src = ImageLoaded width height \<and> getContext2d brw \<and>
        converted = \<lparr>base64 = index_opt (split_comma
             (toDataURL brw src (drawOnCanvas options width height) ''image/png'')) 1,
           mimeType = ''image/png''\<rparr>)"
  by (auto simp: convertImageToBase64_def truthy_def Let_def
      split: ReaderOutcome.splits option.splits ImageOutcome.splits if_splits)

text \<open>
  C9. Whatever \<^verbatim>\<open>convertImageToBase64\<close> resolves with is a PNG: its mime type is
  \<^verbatim>\<open>image/png\<close> and its data is cut from \<^verbatim>\<open>canvas.toDataURL('image/png')\<close>. With
  \<^verbatim>\<open>cropToSquare\<close> the canvas is 965 by 965 and the one draw call takes from the image
  the largest centred square: for a landscape image the source rectangle starts at
  \<open>x = (width - height) / 2\<close> and has width \<open>height\<close>, for a portrait image it starts at
  \<open>y = (height - width) / 2\<close> and has height \<open>width\<close>, for a square image it is the whole
  image. Without \<^verbatim>\<open>cropToSquare\<close> the canvas has the image's own width and height and
  the image is drawn at the origin.
\<close>

theorem convertImageToBase64_png_and_mode:
  assumes "convertImageToBase64 brw file options = Inr converted"
  shows "mimeType converted = ''image/png'' \<and>
    (\<exists>src width height canvas.
       readAsDataURL brw file = ReaderLoaded (Some src) \<and>
       loadImage brw src = ImageLoaded width height \<and>
       canvas = drawOnCanvas options width height \<and>
       base64 converted = index_opt (split_comma (toDataURL brw src canvas ''image/png'')) 1 \<and>
       (cropToSquare options \<longrightarrow>
          canvas_width canvas = 965 \<and> canvas_height canvas = 965 \<and>
          (width > height \<longrightarrow>
             canvas_drawn canvas =
               [DrawImage9 ((real width - real height) / 2) 0 (real height) (real height)
                  0 0 965 965]) \<and>
          (height > width \<longrightarrow>
             canvas_drawn canvas =
               [DrawImage9 0 ((real height - real width) / 2) (real width) (real width)
                  0 0 965 965]) \<and>
          (width = height \<longrightarrow>
             canvas_drawn canvas = [DrawImage9 0 0 (real width) (real height) 0 0 965 965]) \<and>
          (\<exists>sx sy side. canvas_drawn canvas = [DrawImage9 sx sy side side 0 0 965 965] \<and>
             side = real (min width height) \<and>
             sx + side / 2 = real width / 2 \<and> sy + side / 2 = real height / 2)) \<and>
       (\<not> cropToSquare options \<longrightarrow>
          canvas_width canvas = width \<and> canvas_height canvas = height \<and>
          canvas_drawn canvas = [DrawImage3 0 0]))"
proof -
  from assms obtain src width height where
    r: "readAsDataURL brw file = ReaderLoaded (Some src)"
    and l: "loadImage brw src = ImageLoaded width height"
    and c: "converted = \<lparr>base64 = index_opt (split_comma
             (toDataURL brw src (drawOnCanvas options width height) ''image/png'')) 1,
           mimeType = ''image/png''\<rparr>"
    unfolding convert_Inr_iff by blast
  let ?canvas = "drawOnCanvas options width height"
  have crop: "cropToSquare options \<longrightarrow>
          canvas_width ?canvas = 965 \<and> canvas_height ?canvas = 965 \<and>
          (width > height \<longrightarrow>
             canvas_drawn ?canvas =
               [DrawImage9 ((real width - real height) / 2) 0 (real height) (real height)
                  0 0 965 965]) \<and>
          (height > width \<longrightarrow>
             canvas_drawn ?canvas =
               [DrawImage9 0 ((real height - real width) / 2) (real width) (real width)
                  0 0 965 965]) \<and>
          (width = height \<longrightarrow>
             canvas_drawn ?canvas = [DrawImage9 0 0 (real width) (real height) 0 0 965 965]) \<and>
          (\<exists>sx sy side. canvas_drawn ?canvas = [DrawImage9 sx sy side side 0 0 965 965] \<and>
             side = real (min width height) \<and>
             sx + side / 2 = real width / 2 \<and> sy + side / 2 = real height / 2)"
    by (auto simp: drawOnCanvas_def TARGET_DIMENSION_def Let_def min_def field_simps)
  have keep: "\<not> cropToSquare options \<longrightarrow>
          canvas_width ?canvas = width \<and> canvas_height ?canvas = height \<and>
          canvas_drawn ?canvas = [DrawImage3 0 0]"
    by (simp add: drawOnCanvas_def)
  from c have "mimeType converted = ''image/png''" by simp
  moreover from c have "base64 converted =
      index_opt (split_comma (toDataURL brw src ?canvas ''image/png'')) 1"
    by simp
  ultimately show ?thesis
    using r l crop keep by blast
qed

theorem convertImageToBase64_png_and_mode_witness:
  "convertImageToBase64 sampleBrowser annaFile \<lparr>cropToSquare = True\<rparr>
     = Inr \<lparr>base64 = Some ''cGl4ZWxz'', mimeType = ''image/png''\<rparr> \<and>
   mimeType \<lparr>base64 = Some ''cGl4ZWxz'', mimeType = ''image/png''\<rparr> = ''image/png'' \<and>
   canvas_width (drawOnCanvas \<lparr>cropToSquare = True\<rparr> 1200 800) = 965 \<and>
   canvas_drawn (drawOnCanvas \<lparr>cropToSquare = True\<rparr> 1200 800) =
     [DrawImage9 200 0 800 800 0 0 965 965]"
proof -
  have h: "convertImageToBase64 sampleBrowser annaFile \<lparr>cropToSquare = True\<rparr>
     = Inr \<lparr>base64 = Some ''cGl4ZWxz'', mimeType = ''image/png''\<rparr>"
    by (simp add: convertImageToBase64_def sampleBrowser_def annaFile_def truthy_def)
  from convertImageToBase64_png_and_mode [OF h] h show ?thesis
    by (auto simp: sampleBrowser_def)
qed

section \<open>Properties of the registry and the orchestrator\<close>

text \<open>
  C8. The identifier of a new job is the file's name, a dash, and its modification time, and
  nothing compares it with the identifiers already in the list: selecting the same file a
  second time (which \<^verbatim>\<open>ImageUploader\<close> allows by clearing its input) adds a second record
  with the identifier of the first.
\<close>

theorem same_file_twice_same_id:
  "map img_id (employeeImages
      (handleEmployeesUpload sampleEnv [annaFile]
         (handleEmployeesUpload sampleEnv [annaFile] initialApp)))
     = [''anna.jpg-1700000000000'', ''anna.jpg-1700000000000'']"
  by (simp add: handleEmployeesUpload_def newImage_def annaFile_def initialApp_def
      string_of_int_def string_of_nat.simps digit_char_def)


lemma retryableRequest_result:
  "(\<exists>url. fst (retryableRequest requestFn requestName) = Inr url) \<or>
   (\<exists>thrown. fst (retryableRequest requestFn requestName) =
      Inl (ErrorObj (finalErrorMessage requestName (Some (recordedMessage thrown)))))"
proof -
  let ?t = "\<lambda>j. tryAttempt requestName (requestFn j)"
  consider url where "?t 0 = Inr url"
    | t0 url where "?t 0 = Inl t0" "?t 1 = Inr url"
    | t0 t1 url where "?t 0 = Inl t0" "?t 1 = Inl t1" "?t 2 = Inr url"
    | t0 t1 t2 where "?t 0 = Inl t0" "?t 1 = Inl t1" "?t 2 = Inl t2"
    by (metis sum.exhaust)
  then show ?thesis
  proof cases
    case 1
    then show ?thesis by (simp add: retry_first)
  next
    case 2
    then show ?thesis by (simp add: retry_second)
  next
    case 3
    then show ?thesis by (simp add: retry_third)
  next
    case 4
    then show ?thesis by (auto simp: retry_exhausted)
  qed
qed

lemma fold_handleEmployeesUpload:
  "fold (handleEmployeesUpload env) arrivals st =
     st\<lparr>employeeImages := employeeImages st @ concat (map (map (newImage env)) arrivals)\<rparr>"
  by (induction arrivals arbitrary: st) (simp_all add: handleEmployeesUpload_def)

lemma roundStart_Some:
  assumes "companyLogo st = Some logo"
    and "list_ex (\<lambda>img. status img = st_pending) (employeeImages st)"
  shows "roundStart st =
     Some (filter (\<lambda>img. status img = st_pending) (employeeImages st), logo,
           st\<lparr>appState := processing_photos,
              employeeImages := markProcessing
                (filter (\<lambda>img. status img = st_pending) (employeeImages st)) (employeeImages st)\<rparr>)"
proof -
  from assms(2) have "filter (\<lambda>img. status img = st_pending) (employeeImages st) \<noteq> []"
    by (auto simp: list_ex_iff filter_empty_conv)
  with assms(1) show ?thesis
    by (simp add: roundStart_def Let_def)
qed

lemma inBatch_pending:
  "img \<in> set imgs \<Longrightarrow> status img = st_pending \<Longrightarrow>
   inBatch (filter (\<lambda>img. status img = st_pending) imgs) (img\<lparr>status := s\<rparr>)"
  by (auto simp: inBatch_def list_ex_iff)

lemma inBatch_status [simp]: "inBatch batch (img\<lparr>status := s\<rparr>) = inBatch batch img"
  by (simp add: inBatch_def)

text \<open>
  C1. In a round that has a batch and no master background yet, when
  \<^verbatim>\<open>generateMasterBackground\<close> fails it throws an \<^verbatim>\<open>Error\<close>, and then: every job of the
  batch (every record that was \<^verbatim>\<open>pending\<close> when the round started) ends as that record
  with status \<^verbatim>\<open>error\<close> and the thrown message as its error; the only call the round
  made is the background generation, so neither \<^verbatim>\<open>processHeadshot\<close> nor the conversion
  ran for any job; and the application state is \<^verbatim>\<open>idle\<close>. This holds whatever files
  arrive while the round is suspended.
\<close>

theorem background_failure_fails_batch:
  assumes "companyLogo st = Some logo"
    and "masterBackground st = None"
    and "list_ex (\<lambda>img. status img = st_pending) (employeeImages st)"
    and "isl (fst (generateMasterBackground env))"
  shows "\<exists>message. fst (generateMasterBackground env) = Inl (ErrorObj message) \<and>
     appState (fst (processPendingImages env arrivals st)) = idle \<and>
     snd (processPendingImages env arrivals st) = [GenerateMasterBackground] \<and>
     (\<forall>i<length (employeeImages st). status (employeeImages st ! i) = st_pending \<longrightarrow>
        i < length (employeeImages (fst (processPendingImages env arrivals st))) \<and>
        employeeImages (fst (processPendingImages env arrivals st)) ! i =
          (employeeImages st ! i)\<lparr>status := st_error, img_error := Some message\<rparr>)"
proof -
  let ?batch = "filter (\<lambda>img. status img = st_pending) (employeeImages st)"
  let ?new = "concat (map (map (newImage env)) arrivals)"
  from assms(4) retryableRequest_result [of "backgroundService env" "''Master Background Generation''"]
  obtain message where m: "fst (generateMasterBackground env) = Inl (ErrorObj message)"
    by (auto simp: generateMasterBackground_def)
  have run: "processPendingImages env arrivals st =
      (st\<lparr>appState := idle,
          employeeImages := markError ?batch message
             (markProcessing ?batch (employeeImages st) @ ?new)\<rparr>,
       [GenerateMasterBackground])"
    by (simp add: processPendingImages_def roundStart_Some [OF assms(1,3)] roundFinish_def
        assms(2) m fold_handleEmployeesUpload messageOr_def)
  have "employeeImages (fst (processPendingImages env arrivals st)) ! i =
          (employeeImages st ! i)\<lparr>status := st_error, img_error := Some message\<rparr>"
    if "i < length (employeeImages st)" and "status (employeeImages st ! i) = st_pending" for i
  proof -
    from that have "inBatch ?batch (employeeImages st ! i)"
      using inBatch_pending [of "employeeImages st ! i" "employeeImages st" st_pending]
      by simp
    with that(1) show ?thesis
      by (simp add: run markError_def markProcessing_def nth_append)
  qed
  moreover have "i < length (employeeImages (fst (processPendingImages env arrivals st)))"
    if "i < length (employeeImages st)" for i
    using that by (simp add: run markError_def markProcessing_def)
  ultimately show ?thesis
    using m by (auto simp: run)
qed


text \<open>The sample surroundings, evaluated.\<close>

lemma retryableRequest_always_image:
  "d \<noteq> [] \<Longrightarrow>
   retryableRequest (\<lambda>k. imageResponse d) requestName = (Inr (''data:image/png;base64,'' @ d), [Invoke])"
  by (rule retry_first) (simp add: tryAttempt_imageResponse)

lemma retryableRequest_always_rejects:
  "fst (retryableRequest (\<lambda>k. Inl (ErrorObj m)) requestName) =
     Inl (ErrorObj (requestName @ '' failed after 3 attempts. Last error: ''
       @ (if m = [] then ''Unknown'' else m)))"
proof -
  have "\<forall>j<3. isl (tryAttempt requestName ((\<lambda>k. Inl (ErrorObj m)) j))"
    by (simp add: tryAttempt_def)
  from retry_all_fail [OF this] show ?thesis
    by (simp add: finalErrorMessage_text tryAttempt_def recordedMessage_def)
qed

lemma sample_logo:
  "convertImageToBase64 sampleBrowser file options =
     Inr \<lparr>base64 = Some ''cGl4ZWxz'', mimeType = ''image/png''\<rparr>"
  by (simp add: convertImageToBase64_def sampleBrowser_def truthy_def)

lemma sample_blob: "createObjectURL sampleBrowser file = ''blob:'' @ file_name file"
  by (simp add: sampleBrowser_def)

lemma loadedApp_eq:
  "loadedApp =
     \<lparr>appState = needs_photos, masterBackground = None,
      companyLogo = Some \<lparr>base64 = Some ''cGl4ZWxz'', mimeType = ''image/png''\<rparr>,
      employeeImages =
        [\<lparr>img_id = ''anna.jpg-1700000000000'', img_file = annaFile,
          originalUrl = ''blob:anna.jpg'', processedUrl = None, status = st_pending,
          img_error = None\<rparr>,
         \<lparr>img_id = ''ben.jpg-1700000000001'', img_file = benFile,
          originalUrl = ''blob:ben.jpg'', processedUrl = None, status = st_pending,
          img_error = None\<rparr>]\<rparr>"
  by (simp add: loadedApp_def handleEmployeesUpload_def handleLogoUpload_def initialApp_def
      sampleEnv_def sample_logo newImage_def annaFile_def benFile_def logoFile_def
      string_of_int_def string_of_nat.simps digit_char_def sample_blob)

theorem background_failure_fails_batch_witness:
  "companyLogo loadedApp = Some \<lparr>base64 = Some ''cGl4ZWxz'', mimeType = ''image/png''\<rparr> \<and>
   masterBackground loadedApp = None \<and>
   list_ex (\<lambda>img. status img = st_pending) (employeeImages loadedApp) \<and>
   isl (fst (generateMasterBackground noBackgroundEnv)) \<and>
   appState (fst (processPendingImages noBackgroundEnv [] loadedApp)) = idle \<and>
   snd (processPendingImages noBackgroundEnv [] loadedApp) = [GenerateMasterBackground] \<and>
   status (employeeImages (fst (processPendingImages noBackgroundEnv [] loadedApp)) ! 0) = st_error \<and>
   img_error (employeeImages (fst (processPendingImages noBackgroundEnv [] loadedApp)) ! 1) =
     Some ''Master Background Generation failed after 3 attempts. Last error: 503 Service Unavailable''"
proof -
  have g: "fst (generateMasterBackground noBackgroundEnv) =
      Inl (ErrorObj ''Master Background Generation failed after 3 attempts. Last error: 503 Service Unavailable'')"
    by (simp add: generateMasterBackground_def noBackgroundEnv_def retryableRequest_always_rejects)
  have h1: "companyLogo loadedApp = Some \<lparr>base64 = Some ''cGl4ZWxz'', mimeType = ''image/png''\<rparr>"
    and h2: "masterBackground loadedApp = None"
    and h3: "list_ex (\<lambda>img. status img = st_pending) (employeeImages loadedApp)"
    by (simp_all add: loadedApp_eq)
  have h4: "isl (fst (generateMasterBackground noBackgroundEnv))"
    by (simp add: g)
  from background_failure_fails_batch [OF h1 h2 h3 h4, of "[]"] g
  have "appState (fst (processPendingImages noBackgroundEnv [] loadedApp)) = idle \<and>
     snd (processPendingImages noBackgroundEnv [] loadedApp) = [GenerateMasterBackground] \<and>
     (\<forall>i<length (employeeImages loadedApp). status (employeeImages loadedApp ! i) = st_pending \<longrightarrow>
        employeeImages (fst (processPendingImages noBackgroundEnv [] loadedApp)) ! i =
          (employeeImages loadedApp ! i)\<lparr>status := st_error, img_error :=
             Some ''Master Background Generation failed after 3 attempts. Last error: 503 Service Unavailable''\<rparr>)"
    by auto
  moreover have "0 < length (employeeImages loadedApp)" "1 < length (employeeImages loadedApp)"
    "status (employeeImages loadedApp ! 0) = st_pending"
    "status (employeeImages loadedApp ! 1) = st_pending"
    by (simp_all add: loadedApp_eq)
  ultimately show ?thesis
    using h1 h2 h3 h4 by simp
qed

text \<open>The calls of the fan-out never create a background and use only the one passed in.\<close>

lemma creations_append [simp]: "creations (xs @ ys) = creations xs + creations ys"
  by (simp add: creations_def)

lemma creations_simps [simp]:
  "creations [] = 0"
  "creations (GenerateMasterBackground # calls) = Suc (creations calls)"
  "creations (ConvertImageToBase64 f c # calls) = creations calls"
  "creations (ProcessHeadshot e b l # calls) = creations calls"
  by (simp_all add: creations_def)

lemma backgroundsUsed_append [simp]:
  "backgroundsUsed (xs @ ys) = backgroundsUsed xs @ backgroundsUsed ys"
  by (induction xs rule: backgroundsUsed.induct) simp_all

lemma processImage_calls:
  "creations (snd (processImage env bg logo job)) = 0"
  "set (backgroundsUsed (snd (processImage env bg logo job))) \<subseteq> {bg}"
  by (auto simp: processImage_def split: prod.splits sum.splits)

lemma concat_tasks_calls:
  "creations (concat (map (\<lambda>job. snd (processImage env bg logo job)) jobs)) = 0"
  "set (backgroundsUsed (concat (map (\<lambda>job. snd (processImage env bg logo job)) jobs))) \<subseteq> {bg}"
  using processImage_calls [of env bg logo] by (induction jobs) auto

lemma fanOutFanIn_props:
  "masterBackground (fst (fanOutFanIn env batch bg logo st)) = masterBackground st"
  "companyLogo (fst (fanOutFanIn env batch bg logo st)) = companyLogo st"
  "appState (fst (fanOutFanIn env batch bg logo st)) = idle"
  "creations (snd (fanOutFanIn env batch bg logo st)) = 0"
  "set (backgroundsUsed (snd (fanOutFanIn env batch bg logo st))) \<subseteq> {bg}"
  using concat_tasks_calls [of env bg logo "enumerate 0 batch"]
  by (simp_all add: fanOutFanIn_def Let_def comp_def)


text \<open>The master background across a round.\<close>

lemma fold_upload_fields [simp]:
  "masterBackground (fold (handleEmployeesUpload env) arrivals st) = masterBackground st"
  "companyLogo (fold (handleEmployeesUpload env) arrivals st) = companyLogo st"
  "appState (fold (handleEmployeesUpload env) arrivals st) = appState st"
  by (simp_all add: fold_handleEmployeesUpload)

lemma round_cached:
  assumes "masterBackground st = Some bg"
  shows "masterBackground (fst (processPendingImages env arrivals st)) = Some bg"
    and "creations (snd (processPendingImages env arrivals st)) = 0"
    and "set (backgroundsUsed (snd (processPendingImages env arrivals st))) \<subseteq> {bg}"
  using assms
  by (auto simp: processPendingImages_def roundStart_def roundFinish_def Let_def fanOutFanIn_props
      split: option.splits if_splits dest: subsetD [OF fanOutFanIn_props(5)])

lemma round_uncached:
  assumes "masterBackground st = None"
    and "companyLogo st = Some logo"
    and "list_ex (\<lambda>img. status img = st_pending) (employeeImages st)"
  shows "creations (snd (processPendingImages env arrivals st)) = 1"
    and "fst (generateMasterBackground env) = Inl thrown \<Longrightarrow>
         masterBackground (fst (processPendingImages env arrivals st)) = None"
    and "fst (generateMasterBackground env) = Inr bgDataUrl \<Longrightarrow>
         masterBackground (fst (processPendingImages env arrivals st)) =
           Some \<lparr>base64 = index_opt (split_comma bgDataUrl) 1, mimeType = ''image/png''\<rparr>"
    and "fst (generateMasterBackground env) = Inr bgDataUrl \<Longrightarrow>
         set (backgroundsUsed (snd (processPendingImages env arrivals st))) \<subseteq>
           {\<lparr>base64 = index_opt (split_comma bgDataUrl) 1, mimeType = ''image/png''\<rparr>}"
    and "companyLogo (fst (processPendingImages env arrivals st)) = Some logo"
    and "appState (fst (processPendingImages env arrivals st)) = idle"
  using assms(1,2)
  by (auto simp: processPendingImages_def roundStart_Some [OF assms(2,3)] roundFinish_def Let_def
      fanOutFanIn_props split: sum.splits dest: subsetD [OF fanOutFanIn_props(5)])

lemma round_creations_le_1:
  "creations (snd (processPendingImages env arrivals st)) \<le> 1"
  by (auto simp: processPendingImages_def roundStart_def roundFinish_def Let_def
      fanOutFanIn_props split: option.splits sum.splits)


lemma sample_background:
  "generateMasterBackground sampleEnv = (Inr ''data:image/png;base64,YmFja2dyb3VuZA=='', [Invoke])"
  by (simp add: generateMasterBackground_def sampleEnv_def retryableRequest_always_image)


text \<open>The sample services and files, evaluated.\<close>

lemma sampleEnv_fields:
  "browser sampleEnv = sampleBrowser"
  "browser noBackgroundEnv = sampleBrowser"
  "browser (failingAt p) = sampleBrowser"
  by (simp_all add: sampleEnv_def noBackgroundEnv_def failingAt_def)

lemma sample_headshot:
  "processHeadshot sampleEnv position e b l =
     (Inr ''data:image/png;base64,aGVhZHNob3Q='', [Invoke])"
  by (simp add: processHeadshot_def sampleEnv_def retryableRequest_always_image)

lemma failingAt_headshot:
  "fst (processHeadshot (failingAt p) position e b l) =
     (if position = p
      then Inl (ErrorObj ''Headshot Processing failed after 3 attempts. Last error: 503 Service Unavailable'')
      else Inr ''data:image/png;base64,aGVhZHNob3Q='')"
  by (simp add: processHeadshot_def failingAt_def retryableRequest_always_image
      retryableRequest_always_rejects)

lemma failingAt_background:
  "generateMasterBackground (failingAt p) = (Inr ''data:image/png;base64,YmFja2dyb3VuZA=='', [Invoke])"
  by (simp add: generateMasterBackground_def failingAt_def retryableRequest_always_image)

lemma sample_processImage:
  "fst (processImage sampleEnv bg logo (position, img)) =
     \<lparr>res_id = img_id img, res_status = st_done,
      res_url = Some ''data:image/png;base64,aGVhZHNob3Q='', res_error = None\<rparr>"
  by (simp add: processImage_def sampleEnv_fields sample_logo sample_headshot)

lemma failingAt_processImage:
  "fst (processImage (failingAt p) bg logo (position, img)) =
     (if position = p
      then \<lparr>res_id = img_id img, res_status = st_error, res_url = None,
            res_error = Some ''Headshot Processing failed after 3 attempts. Last error: 503 Service Unavailable''\<rparr>
      else \<lparr>res_id = img_id img, res_status = st_done,
            res_url = Some ''data:image/png;base64,aGVhZHNob3Q='', res_error = None\<rparr>)"
  by (simp add: processImage_def sampleEnv_fields sample_logo failingAt_headshot messageOr_def)

lemma newImage_anna:
  "newImage env annaFile =
     \<lparr>img_id = ''anna.jpg-1700000000000'', img_file = annaFile,
      originalUrl = createObjectURL (browser env) annaFile, processedUrl = None,
      status = st_pending, img_error = None\<rparr>"
  by (simp add: newImage_def annaFile_def string_of_int_def string_of_nat.simps digit_char_def)


text \<open>The fan-in, record by record.\<close>

lemma findIndex_None_iff: "findIndex P xs = None \<longleftrightarrow> (\<forall>x\<in>set xs. \<not> P x)"
  by (induction xs) (auto split: option.splits)

lemma findIndex_Some:
  "findIndex P xs = Some i \<Longrightarrow> i < length xs \<and> P (xs ! i) \<and> (\<forall>j<i. \<not> P (xs ! j))"
proof (induction xs arbitrary: i)
  case Nil
  then show ?case by simp
next
  case (Cons x xs)
  show ?case
  proof (cases "P x")
    case True
    with Cons.prems show ?thesis by simp
  next
    case False
    with Cons.prems obtain k where k: "findIndex P xs = Some k" "i = Suc k"
      by (auto split: option.splits)
    from Cons.IH [OF k(1)] False k(2) show ?thesis
      by (auto simp: less_Suc_eq_0_disj)
  qed
qed

lemma findIndex_append:
  "\<exists>x\<in>set xs. P x \<Longrightarrow> findIndex P (xs @ ys) = findIndex P xs"
proof (induction xs)
  case Nil
  then show ?case by simp
next
  case (Cons x xs)
  show ?case
  proof (cases "P x")
    case True
    then show ?thesis by simp
  next
    case False
    with Cons.prems have "\<exists>x\<in>set xs. P x" by simp
    from Cons.IH [OF this] False show ?thesis by simp
  qed
qed

lemma assignResult_id [simp]: "img_id (assignResult v img) = img_id img"
  by (simp add: assignResult_def Let_def)

lemma applyResult_length [simp]: "length (applyResult r imgs) = length imgs"
  by (auto simp: applyResult_def split: Settled.splits option.splits)

lemma map_id_update:
  "i < length imgs \<Longrightarrow> map img_id (imgs[i := assignResult v (imgs ! i)]) = map img_id imgs"
proof -
  assume i: "i < length imgs"
  have "map img_id (imgs[i := assignResult v (imgs ! i)]) = (map img_id imgs)[i := img_id (imgs ! i)]"
    by (simp add: map_update)
  also have "\<dots> = (map img_id imgs)[i := map img_id imgs ! i]"
    using i by simp
  also have "\<dots> = map img_id imgs"
    by (rule list_update_id)
  finally show ?thesis .
qed

lemma applyResult_ids [simp]: "map img_id (applyResult r imgs) = map img_id imgs"
proof (cases r)
  case (Rejected reason)
  then show ?thesis by (simp add: applyResult_def)
next
  case (Fulfilled v)
  show ?thesis
  proof (cases "findIndex (\<lambda>img. img_id img = res_id v) imgs")
    case None
    with Fulfilled show ?thesis by (simp add: applyResult_def)
  next
    case (Some i)
    from findIndex_Some [OF Some] have "i < length imgs" by simp
    with Fulfilled Some show ?thesis by (simp add: applyResult_def map_id_update)
  qed
qed

lemma fanIn_length [simp]: "length (fanIn results imgs) = length imgs"
  unfolding fanIn_def by (induction results arbitrary: imgs) simp_all

lemma fanIn_ids [simp]: "map img_id (fanIn results imgs) = map img_id imgs"
  unfolding fanIn_def by (induction results arbitrary: imgs) simp_all

text \<open>A fulfilled result changes no record with another identifier.\<close>

lemma applyResult_other:
  assumes "j < length imgs" and "img_id (imgs ! j) \<noteq> res_id v"
  shows "applyResult (Fulfilled v) imgs ! j = imgs ! j"
proof (cases "findIndex (\<lambda>img. img_id img = res_id v) imgs")
  case None
  then show ?thesis by (simp add: applyResult_def)
next
  case (Some i)
  from findIndex_Some [OF Some] assms(2) have "i \<noteq> j" by auto
  with Some show ?thesis by (simp add: applyResult_def)
qed

text \<open>Where identifiers are pairwise distinct, a fulfilled result changes exactly the
  record with its identifier.\<close>

lemma applyResult_distinct:
  assumes "distinct (map img_id imgs)"
  shows "applyResult (Fulfilled v) imgs =
     map (\<lambda>img. if img_id img = res_id v then assignResult v img else img) imgs"
proof (rule nth_equalityI)
  show "length (applyResult (Fulfilled v) imgs) =
      length (map (\<lambda>img. if img_id img = res_id v then assignResult v img else img) imgs)"
    by simp
next
  fix j
  assume "j < length (applyResult (Fulfilled v) imgs)"
  then have j: "j < length imgs" by simp
  show "applyResult (Fulfilled v) imgs ! j =
      map (\<lambda>img. if img_id img = res_id v then assignResult v img else img) imgs ! j"
  proof (cases "img_id (imgs ! j) = res_id v")
    case False
    with j show ?thesis by (simp add: applyResult_other)
  next
    case True
    with j have "\<exists>x\<in>set imgs. img_id x = res_id v"
      using nth_mem by blast
    then obtain i where i: "findIndex (\<lambda>img. img_id img = res_id v) imgs = Some i"
      by (cases "findIndex (\<lambda>img. img_id img = res_id v) imgs") (auto simp: findIndex_None_iff)
    from findIndex_Some [OF i] have "i < length imgs" "img_id (imgs ! i) = res_id v"
      by simp_all
    with True j assms have "i = j"
      by (metis distinct_conv_nth length_map nth_map)
    with i j True show ?thesis
      by (simp add: applyResult_def)
  qed
qed

text \<open>A result whose identifier occurs in the list never reaches what was appended to it.\<close>

lemma applyResult_append:
  assumes "res_id v \<in> img_id ` set imgs"
  shows "applyResult (Fulfilled v) (imgs @ extra) = applyResult (Fulfilled v) imgs @ extra"
proof -
  from assms have e: "\<exists>x\<in>set imgs. img_id x = res_id v" by auto
  then obtain i where i: "findIndex (\<lambda>img. img_id img = res_id v) imgs = Some i"
    by (cases "findIndex (\<lambda>img. img_id img = res_id v) imgs") (auto simp: findIndex_None_iff)
  from findIndex_Some [OF i] have "i < length imgs" by simp
  with i findIndex_append [OF e, of extra] show ?thesis
    by (simp add: applyResult_def list_update_append nth_append)
qed

lemma fanIn_append:
  assumes "\<forall>v\<in>set vals. res_id v \<in> img_id ` set imgs"
  shows "fanIn (map Fulfilled vals) (imgs @ extra) = fanIn (map Fulfilled vals) imgs @ extra"
  using assms
proof (induction vals arbitrary: imgs)
  case Nil
  then show ?case by (simp add: fanIn_def)
next
  case (Cons v vals)
  have ids: "img_id ` set (applyResult (Fulfilled v) imgs) = img_id ` set imgs"
    using applyResult_ids [of "Fulfilled v" imgs] by (metis set_map)
  from Cons.prems have "\<forall>w\<in>set vals. res_id w \<in> img_id ` set (applyResult (Fulfilled v) imgs)"
    by (simp add: ids)
  from Cons.IH [OF this] Cons.prems show ?case
    by (simp add: fanIn_def applyResult_append)
qed

lemma fanIn_distinct:
  assumes "distinct (map img_id imgs)" and "distinct (map res_id vals)"
  shows "fanIn (map Fulfilled vals) imgs =
     map (\<lambda>img. case find (\<lambda>v. res_id v = img_id img) vals of
                  None \<Rightarrow> img | Some v \<Rightarrow> assignResult v img) imgs"
  using assms
proof (induction vals arbitrary: imgs)
  case Nil
  then show ?case by (simp add: fanIn_def)
next
  case (Cons v vals)
  let ?step = "applyResult (Fulfilled v) imgs"
  have d: "distinct (map img_id ?step)"
    using Cons.prems(1) by simp
  from Cons.prems(2) have dv: "distinct (map res_id vals)" and nv: "res_id v \<notin> res_id ` set vals"
    by simp_all
  have none: "find (\<lambda>w. res_id w = res_id v) vals = None"
  proof (cases "find (\<lambda>w. res_id w = res_id v) vals")
    case None
    then show ?thesis .
  next
    case (Some w)
    then have w: "w \<in> set vals" and e: "res_id w = res_id v"
      by (auto simp: find_Some_iff)
    from w have "res_id w \<in> res_id ` set vals"
      by (rule imageI)
    with nv e show ?thesis by simp
  qed
  have "fanIn (map Fulfilled (v # vals)) imgs = fanIn (map Fulfilled vals) ?step"
    by (simp add: fanIn_def)
  also have "\<dots> = map (\<lambda>img. case find (\<lambda>v. res_id v = img_id img) vals of
                  None \<Rightarrow> img | Some v \<Rightarrow> assignResult v img) ?step"
    by (rule Cons.IH [OF d dv])
  also have "\<dots> = map (\<lambda>img. case find (\<lambda>w. res_id w = img_id img) (v # vals) of
                  None \<Rightarrow> img | Some w \<Rightarrow> assignResult w img) imgs"
    by (simp add: applyResult_distinct [OF Cons.prems(1)] none eq_commute)
  finally show ?case .
qed


text \<open>What the wrapper and the canonicalizer hand to a per-job task.\<close>

lemma retryableRequest_Inr:
  assumes "fst (retryableRequest requestFn requestName) = Inr url"
  shows "\<exists>k\<le>2. tryAttempt requestName (requestFn k) = Inr url"
proof -
  let ?t = "\<lambda>j. tryAttempt requestName (requestFn j)"
  consider u where "?t 0 = Inr u"
    | t0 u where "?t 0 = Inl t0" "?t 1 = Inr u"
    | t0 t1 u where "?t 0 = Inl t0" "?t 1 = Inl t1" "?t 2 = Inr u"
    | t0 t1 t2 where "?t 0 = Inl t0" "?t 1 = Inl t1" "?t 2 = Inl t2"
    by (metis sum.exhaust)
  then show ?thesis
  proof cases
    case 1
    with assms have "?t 0 = Inr url" by (simp add: retry_first)
    then show ?thesis by blast
  next
    case 2
    with assms have "?t 1 = Inr url" by (simp add: retry_second)
    then show ?thesis by (intro exI [of _ 1]) simp
  next
    case 3
    with assms have "?t 2 = Inr url" by (simp add: retry_third)
    then show ?thesis by (intro exI [of _ 2]) simp
  next
    case 4
    with assms show ?thesis by (simp add: retry_exhausted)
  qed
qed

lemma scanParts_prefix:
  "scanParts parts = Some url \<Longrightarrow> \<exists>d. url = ''data:image/png;base64,'' @ d \<and> d \<noteq> []"
  by (induction parts) (auto simp: truthy_def split: option.splits if_splits)

lemma retryableRequest_url:
  assumes "fst (retryableRequest requestFn requestName) = Inr url"
  shows "\<exists>d. url = ''data:image/png;base64,'' @ d \<and> d \<noteq> []"
proof -
  from retryableRequest_Inr [OF assms] obtain k where "tryAttempt requestName (requestFn k) = Inr url"
    by blast
  then obtain parts where "scanParts parts = Some url"
    unfolding tryAttempt_Inr_iff by blast
  then show ?thesis by (rule scanParts_prefix)
qed

lemma retryableRequest_thrown:
  assumes "fst (retryableRequest requestFn requestName) = Inl thrown"
  shows "\<exists>m. thrown = ErrorObj m \<and> m \<noteq> []"
  using retryableRequest_result [of requestFn requestName] assms
  by (auto simp: finalErrorMessage_def)

lemma convert_thrown:
  "convertImageToBase64 brw file options = Inl thrown \<Longrightarrow>
   messageOr thrown ''Unknown processing error.'' \<noteq> []"
  by (auto simp: convertImageToBase64_def messageOr_def Let_def
      split: ReaderOutcome.splits option.splits ImageOutcome.splits if_splits)

text \<open>What a task returns: the job's identifier with \<^verbatim>\<open>done\<close> and a non-empty URL, or with
  \<^verbatim>\<open>error\<close> and a non-empty message.\<close>

lemma processImage_result:
  "res_id (fst (processImage env bg logo (position, img))) = img_id img \<and>
   (res_status (fst (processImage env bg logo (position, img))) = st_done \<and>
      (\<exists>url. res_url (fst (processImage env bg logo (position, img))) = Some url \<and> url \<noteq> [])
    \<or>
    res_status (fst (processImage env bg logo (position, img))) = st_error \<and>
      (\<exists>m. res_error (fst (processImage env bg logo (position, img))) = Some m \<and> m \<noteq> []))"
proof (cases "convertImageToBase64 (browser env) (img_file img) \<lparr>cropToSquare = True\<rparr>")
  case (Inl thrown)
  with convert_thrown [OF Inl] show ?thesis
    by (simp add: processImage_def)
next
  case (Inr employeeImageBase64)
  show ?thesis
  proof (cases "fst (processHeadshot env position employeeImageBase64 bg logo)")
    case (Inl thrown)
    then obtain m where "thrown = ErrorObj m" "m \<noteq> []"
      using retryableRequest_thrown unfolding processHeadshot_def by blast
    with Inl Inr show ?thesis
      by (simp add: processImage_def messageOr_def)
  next
    case (Inr url)
    then obtain d where "url = ''data:image/png;base64,'' @ d"
      using retryableRequest_url unfolding processHeadshot_def by blast
    with Inr \<open>convertImageToBase64 (browser env) (img_file img) \<lparr>cropToSquare = True\<rparr>
        = Inr employeeImageBase64\<close> show ?thesis
      by (simp add: processImage_def)
  qed
qed

text \<open>The one update a record receives from such a result is terminal.\<close>

lemma assignResult_terminal:
  assumes "res_status v = st_done \<and> (\<exists>url. res_url v = Some url \<and> url \<noteq> [])
    \<or> res_status v = st_error \<and> (\<exists>m. res_error v = Some m \<and> m \<noteq> [])"
  shows "status (assignResult v img) = st_done \<and> processedUrl (assignResult v img) = res_url v
      \<and> res_url v \<noteq> None
    \<or> status (assignResult v img) = st_error \<and> img_error (assignResult v img) = res_error v
      \<and> res_error v \<noteq> None"
  using assms by (auto simp: assignResult_def truthy_opt_def truthy_def Let_def)


text \<open>A round whose master background is at hand.\<close>

lemma markProcessing_ids [simp]: "map img_id (markProcessing batch imgs) = map img_id imgs"
  by (simp add: markProcessing_def comp_def if_distrib)

lemma markProcessing_length [simp]: "length (markProcessing batch imgs) = length imgs"
  by (simp add: markProcessing_def)

text \<open>The results of the fan-out, as values.\<close>

lemma fanOutFanIn_images:
  "employeeImages (fst (fanOutFanIn env batch bg logo st)) =
     fanIn (map Fulfilled (map (\<lambda>job. fst (processImage env bg logo job)) (enumerate 0 batch)))
       (employeeImages st)"
  by (simp add: fanOutFanIn_def Let_def comp_def)

lemma task_ids:
  "map res_id (map (\<lambda>job. fst (processImage env bg logo job)) (enumerate n batch)) =
     map img_id batch"
proof -
  have "map res_id (map (\<lambda>job. fst (processImage env bg logo job)) (enumerate n batch)) =
      map (\<lambda>job. img_id (snd job)) (enumerate n batch)"
    using processImage_result [of env bg logo] by (auto simp: comp_def)
  also have "\<dots> = map img_id (map snd (enumerate n batch))"
    by (simp only: map_map comp_def)
  also have "\<dots> = map img_id batch"
    by (simp only: map_snd_enumerate)
  finally show ?thesis .
qed

text \<open>The registry after a round whose master background is at hand (cached, or generated
  in this round): the fan-in of the task results over the records marked
  \<^verbatim>\<open>processing\<close>, followed by the records that arrived meanwhile, untouched.\<close>

lemma round_success_images:
  assumes "companyLogo st = Some logo"
    and "list_ex (\<lambda>img. status img = st_pending) (employeeImages st)"
    and "masterBackground st = Some bg \<or>
         masterBackground st = None \<and>
         (\<exists>url. fst (generateMasterBackground env) = Inr url \<and>
            bg = \<lparr>base64 = index_opt (split_comma url) 1, mimeType = ''image/png''\<rparr>)"
  shows "employeeImages (fst (processPendingImages env arrivals st)) =
     fanIn (map Fulfilled (map (\<lambda>job. fst (processImage env bg logo job))
              (enumerate 0 (filter (\<lambda>img. status img = st_pending) (employeeImages st)))))
       (markProcessing (filter (\<lambda>img. status img = st_pending) (employeeImages st))
          (employeeImages st))
     @ concat (map (map (newImage env)) arrivals)"
proof -
  let ?batch = "filter (\<lambda>img. status img = st_pending) (employeeImages st)"
  let ?marked = "markProcessing ?batch (employeeImages st)"
  let ?new = "concat (map (map (newImage env)) arrivals)"
  let ?vals = "map (\<lambda>job. fst (processImage env bg logo job)) (enumerate 0 ?batch)"
  have members: "\<forall>v\<in>set ?vals. res_id v \<in> img_id ` set ?marked"
  proof
    fix v
    assume "v \<in> set ?vals"
    then have "res_id v \<in> res_id ` set ?vals" by (rule imageI)
    then have "res_id v \<in> set (map res_id ?vals)" by (simp only: set_map)
    then have "res_id v \<in> set (map img_id ?batch)" by (simp only: task_ids)
    then have "res_id v \<in> set (map img_id (employeeImages st))" by auto
    then have "res_id v \<in> set (map img_id ?marked)" by (simp only: markProcessing_ids)
    then show "res_id v \<in> img_id ` set ?marked" by (simp only: set_map)
  qed
  have "employeeImages (fst (processPendingImages env arrivals st)) =
      fanIn (map Fulfilled ?vals) (?marked @ ?new)"
    using assms(3)
    by (auto simp: processPendingImages_def roundStart_Some [OF assms(1,2)] roundFinish_def
        fold_handleEmployeesUpload fanOutFanIn_images Let_def)
  also have "\<dots> = fanIn (map Fulfilled ?vals) ?marked @ ?new"
    by (rule fanIn_append [OF members])
  finally show ?thesis .
qed


text \<open>Registries whose identifiers are pairwise distinct.\<close>

lemma same_id_same_record:
  "distinct (map img_id imgs) \<Longrightarrow> a \<in> set imgs \<Longrightarrow> b \<in> set imgs \<Longrightarrow>
   img_id a = img_id b \<Longrightarrow> a = b"
  by (meson distinct_map inj_on_def)

lemma inBatch_distinct:
  assumes "distinct (map img_id imgs)" and "img \<in> set imgs"
  shows "inBatch (filter (\<lambda>img. status img = st_pending) imgs) img \<longleftrightarrow> status img = st_pending"
proof
  assume "inBatch (filter (\<lambda>img. status img = st_pending) imgs) img"
  then obtain p where "p \<in> set imgs" "status p = st_pending" "img_id p = img_id img"
    by (auto simp: inBatch_def list_ex_iff)
  with same_id_same_record [OF assms(1) _ assms(2)] show "status img = st_pending"
    by blast
next
  assume "status img = st_pending"
  with assms(2) show "inBatch (filter (\<lambda>img. status img = st_pending) imgs) img"
    by (auto simp: inBatch_def list_ex_iff)
qed

lemma markProcessing_distinct:
  assumes "distinct (map img_id imgs)"
  shows "markProcessing (filter (\<lambda>img. status img = st_pending) imgs) imgs =
     map (\<lambda>img. if status img = st_pending then img\<lparr>status := st_processing\<rparr> else img) imgs"
  unfolding markProcessing_def
  by (rule map_cong) (simp_all add: inBatch_distinct [OF assms])

text \<open>
  With pairwise distinct identifiers in the registry, a round whose master background is at
  hand gives every job of its batch exactly one update, the one of its own task, and that
  update is terminal; every other record is left as it was.
\<close>

lemma batch_jobs_settled:
  assumes d: "distinct (map img_id (employeeImages st))"
    and logo: "companyLogo st = Some logo"
    and bg: "masterBackground st = Some bg \<or>
         masterBackground st = None \<and>
         (\<exists>url. fst (generateMasterBackground env) = Inr url \<and>
            bg = \<lparr>base64 = index_opt (split_comma url) 1, mimeType = ''image/png''\<rparr>)"
    and i: "i < length (employeeImages st)"
  shows "status (employeeImages st ! i) = st_pending \<Longrightarrow>
      \<exists>position. employeeImages (fst (processPendingImages env arrivals st)) ! i =
        assignResult (fst (processImage env bg logo (position, employeeImages st ! i)))
          ((employeeImages st ! i)\<lparr>status := st_processing\<rparr>)"
    and "status (employeeImages st ! i) \<noteq> st_pending \<Longrightarrow>
      employeeImages (fst (processPendingImages env arrivals st)) ! i = employeeImages st ! i"
proof -
  let ?imgs = "employeeImages st"
  let ?batch = "filter (\<lambda>img. status img = st_pending) ?imgs"
  let ?marked = "markProcessing ?batch ?imgs"
  let ?new = "concat (map (map (newImage env)) arrivals)"
  let ?vals = "map (\<lambda>job. fst (processImage env bg logo job)) (enumerate 0 ?batch)"
  let ?g = "\<lambda>img. case find (\<lambda>v. res_id v = img_id img) ?vals of
                  None \<Rightarrow> img | Some v \<Rightarrow> assignResult v img"
  let ?final = "employeeImages (fst (processPendingImages env arrivals st))"
  have mem: "?imgs ! i \<in> set ?imgs"
    using i by simp
  have dv: "distinct (map res_id ?vals)"
    unfolding task_ids using d by (rule distinct_map_filter)
  have dm: "distinct (map img_id ?marked)"
    using d by simp
  have marked_i: "?marked ! i =
      (if status (?imgs ! i) = st_pending then (?imgs ! i)\<lparr>status := st_processing\<rparr> else ?imgs ! i)"
    using i by (simp add: markProcessing_distinct [OF d])
  have val_of: "\<exists>position. v = fst (processImage env bg logo (position, ?imgs ! i))
      \<and> status (?imgs ! i) = st_pending"
    if "v \<in> set ?vals" and "res_id v = img_id (?imgs ! i)" for v
  proof -
    from that(1) obtain position b where pb: "(position, b) \<in> set (enumerate 0 ?batch)"
        and v: "v = fst (processImage env bg logo (position, b))"
      by auto
    from pb have "snd (position, b) \<in> snd ` set (enumerate 0 ?batch)"
      by (rule imageI)
    then have "b \<in> set (map snd (enumerate 0 ?batch))"
      by (simp only: set_map snd_conv)
    then have b: "b \<in> set ?batch"
      by (simp only: map_snd_enumerate)
    from v that(2) processImage_result [of env bg logo position b]
    have "img_id b = img_id (?imgs ! i)" by simp
    with same_id_same_record [OF d _ mem] b have "b = ?imgs ! i" by simp
    with v b show ?thesis by auto
  qed
  {
    assume p: "status (?imgs ! i) = st_pending"
    then have pend: "list_ex (\<lambda>img. status img = st_pending) ?imgs"
      using mem by (auto simp: list_ex_iff)
    have final: "?final = map ?g ?marked @ ?new"
      by (simp only: round_success_images [OF logo pend bg] fanIn_distinct [OF dm dv])
    have "?imgs ! i \<in> set ?batch"
      using mem p by simp
    then obtain position where "(position, ?imgs ! i) \<in> set (enumerate 0 ?batch)"
      by (metis in_set_conv_nth in_set_enumerate_eq add_0 fst_conv snd_conv length_enumerate
          nth_enumerate_eq)
    then have "fst (processImage env bg logo (position, ?imgs ! i)) \<in> set ?vals"
      by force
    moreover have "res_id (fst (processImage env bg logo (position, ?imgs ! i))) = img_id (?imgs ! i)"
      using processImage_result [of env bg logo position "?imgs ! i"] by simp
    ultimately have "find (\<lambda>v. res_id v = img_id (?imgs ! i)) ?vals \<noteq> None"
      unfolding find_None_iff by blast
    then obtain v where f: "find (\<lambda>v. res_id v = img_id (?imgs ! i)) ?vals = Some v"
      by blast
    then have "v \<in> set ?vals" "res_id v = img_id (?imgs ! i)"
      by (auto simp: find_Some_iff)
    from val_of [OF this] obtain position' where
      v: "v = fst (processImage env bg logo (position', ?imgs ! i))"
      by blast
    have "?final ! i = ?g (?marked ! i)"
      using i by (simp add: final nth_append)
    also have "\<dots> = assignResult v ((?imgs ! i)\<lparr>status := st_processing\<rparr>)"
      using p f by (simp add: marked_i)
    finally show "\<exists>position. ?final ! i =
        assignResult (fst (processImage env bg logo (position, ?imgs ! i)))
          ((?imgs ! i)\<lparr>status := st_processing\<rparr>)"
      using v by blast
  }
  {
    assume np: "status (?imgs ! i) \<noteq> st_pending"
    show "?final ! i = ?imgs ! i"
    proof (cases "list_ex (\<lambda>img. status img = st_pending) ?imgs")
      case False
      then have "?batch = []"
        by (auto simp: list_ex_iff filter_empty_conv)
      then show ?thesis
        by (simp add: processPendingImages_def roundStart_def Let_def split: option.splits)
    next
      case True
      have final: "?final = map ?g ?marked @ ?new"
        by (simp only: round_success_images [OF logo True bg] fanIn_distinct [OF dm dv])
      have "find (\<lambda>v. res_id v = img_id (?imgs ! i)) ?vals = None"
      proof (cases "find (\<lambda>v. res_id v = img_id (?imgs ! i)) ?vals")
        case None
        then show ?thesis .
      next
        case (Some v)
        then have "v \<in> set ?vals" "res_id v = img_id (?imgs ! i)"
          by (auto simp: find_Some_iff)
        from val_of [OF this] np show ?thesis by blast
      qed
      moreover have "?final ! i = ?g (?marked ! i)"
        using i by (simp add: final nth_append)
      ultimately show ?thesis
        using np by (simp add: marked_i)
    qed
  }
qed


lemma newImage_pending [simp]: "status (newImage env file) = st_pending"
  by (simp add: newImage_def)

text \<open>
  Records that arrive while a round is suspended are appended after the records the round
  started from. Whenever the master background is at hand they are still as submitted
  when the round is over, whatever their identifiers; when its generation fails they are
  so provided none of them has the identifier of a job of the batch. In both cases the
  round ends \<^verbatim>\<open>idle\<close> with the arrived records \<^verbatim>\<open>pending\<close>, so they are in the batch the
  next round takes.
\<close>

lemma arrivals_untouched:
  assumes logo: "companyLogo st = Some logo"
    and pend: "list_ex (\<lambda>img. status img = st_pending) (employeeImages st)"
    and bg: "(masterBackground st = Some bg \<or>
         masterBackground st = None \<and>
         (\<exists>url. fst (generateMasterBackground env) = Inr url \<and>
            bg = \<lparr>base64 = index_opt (split_comma url) 1, mimeType = ''image/png''\<rparr>))
       \<or>
        (masterBackground st = None \<and> isl (fst (generateMasterBackground env)) \<and>
         (\<forall>img\<in>set (concat (map (map (newImage env)) arrivals)).
            \<not> inBatch (filter (\<lambda>img. status img = st_pending) (employeeImages st)) img))"
  shows "drop (length (employeeImages st))
           (employeeImages (fst (processPendingImages env arrivals st))) =
         concat (map (map (newImage env)) arrivals)"
    and "appState (fst (processPendingImages env arrivals st)) = idle"
    and "set (concat (map (map (newImage env)) arrivals)) \<subseteq>
         set (filter (\<lambda>img. status img = st_pending)
               (employeeImages (fst (processPendingImages env arrivals st))))"
proof -
  let ?imgs = "employeeImages st"
  let ?batch = "filter (\<lambda>img. status img = st_pending) ?imgs"
  let ?new = "concat (map (map (newImage env)) arrivals)"
  let ?final = "fst (processPendingImages env arrivals st)"
  have "drop (length ?imgs) (employeeImages ?final) = ?new \<and> appState ?final = idle"
    using bg
  proof (elim disjE conjE)
    assume "masterBackground st = Some bg"
    then have b: "masterBackground st = Some bg \<or>
         masterBackground st = None \<and>
         (\<exists>url. fst (generateMasterBackground env) = Inr url \<and>
            bg = \<lparr>base64 = index_opt (split_comma url) 1, mimeType = ''image/png''\<rparr>)"
      by simp
    have "appState ?final = idle"
      using \<open>masterBackground st = Some bg\<close>
      by (simp add: processPendingImages_def roundStart_Some [OF logo pend] roundFinish_def
          fanOutFanIn_props)
    then show ?thesis
      by (simp add: round_success_images [OF logo pend b])
  next
    assume n: "masterBackground st = None"
      and "\<exists>url. fst (generateMasterBackground env) = Inr url \<and>
            bg = \<lparr>base64 = index_opt (split_comma url) 1, mimeType = ''image/png''\<rparr>"
    then have b: "masterBackground st = Some bg \<or>
         masterBackground st = None \<and>
         (\<exists>url. fst (generateMasterBackground env) = Inr url \<and>
            bg = \<lparr>base64 = index_opt (split_comma url) 1, mimeType = ''image/png''\<rparr>)"
      by simp
    have "appState ?final = idle"
      by (rule round_uncached(6) [OF n logo pend])
    then show ?thesis
      by (simp add: round_success_images [OF logo pend b])
  next
    assume n: "masterBackground st = None"
      and f: "isl (fst (generateMasterBackground env))"
      and fresh: "\<forall>img\<in>set ?new. \<not> inBatch ?batch img"
    from f obtain thrown where t: "fst (generateMasterBackground env) = Inl thrown"
      by (auto simp: isl_def)
    have "map (\<lambda>img. if inBatch ?batch img
                then img\<lparr>status := st_error,
                         img_error := Some (messageOr thrown ''Master background generation failed.'')\<rparr>
                else img) ?new = map (\<lambda>img. img) ?new"
      by (rule map_cong) (simp_all add: fresh)
    then show ?thesis
      by (simp add: processPendingImages_def roundStart_Some [OF logo pend] roundFinish_def n t
          fold_handleEmployeesUpload markError_def)
  qed
  then have 1: "drop (length ?imgs) (employeeImages ?final) = ?new"
    and 2: "appState ?final = idle"
    by simp_all
  show "drop (length ?imgs) (employeeImages ?final) = ?new" by (rule 1)
  show "appState ?final = idle" by (rule 2)
  have "set ?new \<subseteq> set (employeeImages ?final)"
    using set_drop_subset [of "length ?imgs" "employeeImages ?final"] by (simp add: 1)
  moreover have "\<forall>img\<in>set ?new. status img = st_pending"
    by auto
  ultimately show "set ?new \<subseteq> set (filter (\<lambda>img. status img = st_pending) (employeeImages ?final))"
    by auto
qed


text \<open>The identifiers of new jobs.\<close>

lemma digit_cases:
  "d < 10 \<Longrightarrow> d = 0 \<or> d = 1 \<or> d = 2 \<or> d = 3 \<or> d = 4 \<or> d = 5 \<or> d = 6 \<or> d = 7 \<or> d = 8 \<or> d = (9::nat)"
  by arith

lemma digit_char_values:
  "digit_char 0 = CHR ''0''" "digit_char (Suc 0) = CHR ''1''" "digit_char 2 = CHR ''2''"
  "digit_char 3 = CHR ''3''" "digit_char 4 = CHR ''4''" "digit_char 5 = CHR ''5''"
  "digit_char 6 = CHR ''6''" "digit_char 7 = CHR ''7''" "digit_char 8 = CHR ''8''"
  "digit_char 9 = CHR ''9''"
  by (simp_all add: digit_char_def)

lemma digit_char_inj:
  assumes "d < 10" and "e < 10" and "digit_char d = digit_char e"
  shows "d = e"
  using digit_cases [OF assms(1)] digit_cases [OF assms(2)] assms(3)
  by (elim disjE) (simp_all add: digit_char_values)

lemma digit_char_not_dash:
  assumes "d < 10"
  shows "digit_char d \<noteq> CHR ''-''"
  using digit_cases [OF assms] by (elim disjE) (simp_all add: digit_char_values)

lemma string_of_nat_nonempty: "string_of_nat n \<noteq> []"
  by (subst string_of_nat.simps) simp

lemma string_of_nat_no_dash: "CHR ''-'' \<notin> set (string_of_nat n)"
proof (induction n rule: string_of_nat.induct)
  case (1 n)
  show ?case
  proof (cases "n < 10")
    case True
    then show ?thesis
      using digit_char_not_dash [of n] by (subst string_of_nat.simps) auto
  next
    case False
    with 1 digit_char_not_dash [of "n mod 10"] show ?thesis
      by (subst string_of_nat.simps) auto
  qed
qed

lemma string_of_nat_inj: "string_of_nat n = string_of_nat m \<Longrightarrow> n = m"
proof (induction n arbitrary: m rule: string_of_nat.induct)
  case (1 n)
  show ?case
  proof (cases "n < 10")
    case n: True
    show ?thesis
    proof (cases "m < 10")
      case True
      with n 1(2) show ?thesis
        by (simp add: string_of_nat.simps [of n] string_of_nat.simps [of m] digit_char_inj)
    next
      case False
      with n 1(2) string_of_nat_nonempty [of "m div 10"] show ?thesis
        by (simp add: string_of_nat.simps [of n] string_of_nat.simps [of m])
    qed
  next
    case n: False
    show ?thesis
    proof (cases "m < 10")
      case True
      with n 1(2) string_of_nat_nonempty [of "n div 10"] show ?thesis
        by (simp add: string_of_nat.simps [of n] string_of_nat.simps [of m])
    next
      case False
      with n 1(2) have e: "string_of_nat (n div 10) = string_of_nat (m div 10)"
        and l: "digit_char (n mod 10) = digit_char (m mod 10)"
        by (simp_all add: string_of_nat.simps [of n] string_of_nat.simps [of m])
      from 1(1) [OF n e] have "n div 10 = m div 10" .
      moreover from l have "n mod 10 = m mod 10"
        by (simp add: digit_char_inj)
      ultimately show ?thesis
        by (metis div_mult_mod_eq)
    qed
  qed
qed

lemma split_at_last_dash:
  assumes "xs @ c # s = ys @ c # t" and "c \<notin> set s" and "c \<notin> set t"
  shows "xs = ys \<and> s = t"
  using assms(1)
proof (induction xs arbitrary: ys)
  case Nil
  show ?case
  proof (cases ys)
    case Nil
    with Nil.prems show ?thesis by simp
  next
    case (Cons y ys')
    with Nil.prems have "s = ys' @ c # t" by simp
    with assms(2) show ?thesis by simp
  qed
next
  case (Cons x xs)
  show ?case
  proof (cases ys)
    case Nil
    with Cons.prems have "t = xs @ c # s" by simp
    with assms(3) show ?thesis by simp
  next
    case (Cons y ys')
    with Cons.prems have "x = y" and "xs @ c # s = ys' @ c # t" by simp_all
    with Cons.IH [of ys'] Cons show ?thesis by simp
  qed
qed

text \<open>
  What the identifiers do tell apart: two files whose modification times are not negative
  get the same identifier exactly when they have the same name and the same modification
  time.
\<close>

lemma img_id_eq_iff:
  assumes "0 \<le> file_lastModified f" and "0 \<le> file_lastModified g"
  shows "img_id (newImage env f) = img_id (newImage env' g) \<longleftrightarrow>
     file_name f = file_name g \<and> file_lastModified f = file_lastModified g"
proof
  assume "img_id (newImage env f) = img_id (newImage env' g)"
  with assms have "file_name f @ CHR ''-'' # string_of_nat (nat (file_lastModified f)) =
      file_name g @ CHR ''-'' # string_of_nat (nat (file_lastModified g))"
    by (simp add: newImage_def string_of_int_def)
  from split_at_last_dash [OF this string_of_nat_no_dash string_of_nat_no_dash]
  have "file_name f = file_name g"
    and "string_of_nat (nat (file_lastModified f)) = string_of_nat (nat (file_lastModified g))"
    by simp_all
  then have "file_name f = file_name g"
    and "nat (file_lastModified f) = nat (file_lastModified g)"
    by (simp_all add: string_of_nat_inj)
  with assms show "file_name f = file_name g \<and> file_lastModified f = file_lastModified g"
    by simp
next
  assume "file_name f = file_name g \<and> file_lastModified f = file_lastModified g"
  then show "img_id (newImage env f) = img_id (newImage env' g)"
    by (simp add: newImage_def)
qed


section \<open>Sessions\<close>

text \<open>The sample surroundings of the sessions, evaluated.\<close>

lemma secondEnv_fields: "browser secondEnv = sampleBrowser"
  by (simp add: secondEnv_def)

lemma second_background:
  "generateMasterBackground secondEnv = (Inr ''data:image/png;base64,c2Vjb25k'', [Invoke])"
  by (simp add: generateMasterBackground_def secondEnv_def retryableRequest_always_image)

lemma second_processImage:
  "fst (processImage secondEnv bg logo (position, img)) =
     \<lparr>res_id = img_id img, res_status = st_done,
      res_url = Some ''data:image/png;base64,aGVhZHNob3Q='', res_error = None\<rparr>"
proof -
  have "processHeadshot secondEnv position e b l =
     (Inr ''data:image/png;base64,aGVhZHNob3Q='', [Invoke])" for e b l
    by (simp add: processHeadshot_def secondEnv_def retryableRequest_always_image)
  then show ?thesis
    by (simp add: processImage_def secondEnv_fields sample_logo)
qed

lemma newImage_ben:
  "newImage env benFile =
     \<lparr>img_id = ''ben.jpg-1700000000001'', img_file = benFile,
      originalUrl = createObjectURL (browser env) benFile, processedUrl = None,
      status = st_pending, img_error = None\<rparr>"
  by (simp add: newImage_def benFile_def string_of_int_def string_of_nat.simps digit_char_def)

lemma newImage_cara:
  "newImage env caraFile =
     \<lparr>img_id = ''cara.jpg-1700000000002'', img_file = caraFile,
      originalUrl = createObjectURL (browser env) caraFile, processedUrl = None,
      status = st_pending, img_error = None\<rparr>"
  by (simp add: newImage_def caraFile_def string_of_int_def string_of_nat.simps digit_char_def)

lemma task_calls:
  "snd (processImage env bg logo (position, img)) =
     (case convertImageToBase64 (browser env) (img_file img) \<lparr>cropToSquare = True\<rparr> of
        Inl thrown \<Rightarrow> [ConvertImageToBase64 (img_file img) True]
      | Inr employeeImageBase64 \<Rightarrow>
          [ConvertImageToBase64 (img_file img) True,
           ProcessHeadshot employeeImageBase64 bg logo])"
  by (simp add: processImage_def split: sum.splits)

lemmas session_defs =
  initialSession_def initialApp_def selectLogo_def logoConverted_def selectPhotos_def
  clickReset_def runEffect_def backgroundSettled_def tasksSettled_def removeAt_def
  roundStart_def fanOutFanIn_def fanIn_def markProcessing_def markError_def inBatch_def
  enumerate_eq_zip applyResult_def assignResult_def truthy_opt_def truthy_def messageOr_def
  Let_def upt_rec handleEmployeesUpload_def handleReset_def

lemma run_append: "run (xs @ ys) s = run ys (run xs s)"
  by (induction xs arbitrary: s) simp_all

text \<open>A handler or a round that nothing interrupts: the steps of the session, taken
  one after the other, do what the handler and the round do as a whole.\<close>

lemma logo_undisturbed:
  assumes "converting s = []" and "appState (app s) \<noteq> processing_photos"
  shows "app (run [SelectLogo env files, LogoConverted 0] s) = handleLogoUpload env files (app s)"
  using assms
  by (auto simp: selectLogo_def logoConverted_def handleLogoUpload_def removeAt_def
      split: list.splits sum.splits)

lemma undisturbed_round:
  assumes "suspended s = []"
  shows "app (run [RunEffect env, BackgroundSettled 0, TasksSettled 0] s) = fst (effect env [] (app s))"
    and "issued (run [RunEffect env, BackgroundSettled 0, TasksSettled 0] s) = issued s @ snd (effect env [] (app s))"
    and "suspended (run [RunEffect env, BackgroundSettled 0, TasksSettled 0] s) = []"
  using assms
  by (auto simp add: runEffect_def backgroundSettled_def tasksSettled_def removeAt_def
      effect_def processPendingImages_def roundFinish_def fanOutFanIn_def Let_def
      split: option.splits sum.splits prod.splits Phase.splits)

text \<open>
  The master background across a session. Once it is in the state and no suspended round
  is waiting for one of its own, no step replaces it and none issues another creation: a
  round that starts finds it in the state it closes over.
\<close>

lemma set_removeAt: "set (removeAt k xs) \<subseteq> set xs"
  by (auto simp: removeAt_def dest: in_set_takeD in_set_dropD)

lemma runEffect_cached:
  assumes "masterBackground (app s) = Some bg"
  shows "creations (issued (runEffect env s)) = creations (issued s)"
    and "masterBackground (app (runEffect env s)) = Some bg"
    and "set (backgroundsUsed (issued (runEffect env s))) \<subseteq> set (backgroundsUsed (issued s)) \<union> {bg}"
  using assms
  by (auto simp: runEffect_def roundStart_def Let_def fanOutFanIn_props
      split: option.splits if_splits dest: subsetD [OF fanOutFanIn_props(5)])

lemma step_keeps_background:
  assumes "masterBackground (app s) = Some bg"
    and "list_all (\<lambda>r. su_phase r \<noteq> AwaitingBackground) (suspended s)"
  shows "masterBackground (app (step x s)) = Some bg"
    and "list_all (\<lambda>r. su_phase r \<noteq> AwaitingBackground) (suspended (step x s))"
    and "creations (issued (step x s)) = creations (issued s)"
proof -
  have rem: "list_all (\<lambda>r. su_phase r \<noteq> AwaitingBackground) (removeAt k (suspended s))" for k
    using assms(2) set_removeAt [of k "suspended s"] by (auto simp: list_all_iff)
  have nth: "k < length (suspended s) \<Longrightarrow> su_phase (suspended s ! k) \<noteq> AwaitingBackground" for k
    using assms(2) by (simp add: list_all_length)
  show "masterBackground (app (step x s)) = Some bg"
    using assms(1) nth
    by (cases x)
      (auto simp: selectLogo_def logoConverted_def selectPhotos_def clickReset_def runEffect_def
        backgroundSettled_def tasksSettled_def handleEmployeesUpload_def handleReset_def
        roundStart_def fanOutFanIn_props Let_def
        split: option.splits sum.splits list.splits Phase.splits if_splits)
  show "list_all (\<lambda>r. su_phase r \<noteq> AwaitingBackground) (suspended (step x s))"
    using assms rem nth
    by (cases x)
      (auto simp: selectLogo_def logoConverted_def selectPhotos_def clickReset_def runEffect_def
        backgroundSettled_def tasksSettled_def roundStart_def Let_def
        split: option.splits sum.splits list.splits Phase.splits if_splits)
  show "creations (issued (step x s)) = creations (issued s)"
    using assms(1) nth
    by (cases x)
      (auto simp: selectLogo_def logoConverted_def selectPhotos_def clickReset_def runEffect_def
        backgroundSettled_def tasksSettled_def roundStart_def fanOutFanIn_props Let_def
        split: option.splits sum.splits list.splits Phase.splits if_splits)
qed

lemma run_keeps_background:
  assumes "masterBackground (app s) = Some bg"
    and "list_all (\<lambda>r. su_phase r \<noteq> AwaitingBackground) (suspended s)"
  shows "masterBackground (app (run steps s)) = Some bg
         \<and> creations (issued (run steps s)) = creations (issued s)"
  using assms
proof (induction steps arbitrary: s)
  case Nil
  then show ?case by simp
next
  case (Cons x steps)
  from step_keeps_background [OF Cons.prems, of x] Cons.IH [of "step x s"]
  show ?case by simp
qed

text \<open>
  C4. After a photograph has been processed, selecting the same file again adds a second
  record with the same identifier. It is \<^verbatim>\<open>pending\<close>, so it is the batch of the next round;
  the fan-in of that round looks its result up by identifier, finds the first record, and
  the second one is still \<^verbatim>\<open>processing\<close> when the round is over, nothing is suspended
  any more and the application is \<^verbatim>\<open>idle\<close>. A rejected entry of the settled results is
  passed over by the fan-in as well (the tasks as written never reject: \<open>processImage\<close>
  always returns a result).
\<close>

theorem reuploaded_job_left_processing:
  "map status (employeeImages (app (run
      [SelectLogo sampleEnv [logoFile], LogoConverted 0,
       SelectPhotos sampleEnv [annaFile], RunEffect sampleEnv,
       BackgroundSettled 0, TasksSettled 0,
       SelectPhotos sampleEnv [annaFile]] initialSession))) = [st_done, st_pending] \<and>
   map status (employeeImages (app (run
      [SelectLogo sampleEnv [logoFile], LogoConverted 0,
       SelectPhotos sampleEnv [annaFile], RunEffect sampleEnv,
       BackgroundSettled 0, TasksSettled 0,
       SelectPhotos sampleEnv [annaFile], RunEffect sampleEnv, TasksSettled 0]
      initialSession))) = [st_done, st_processing] \<and>
   appState (app (run
      [SelectLogo sampleEnv [logoFile], LogoConverted 0,
       SelectPhotos sampleEnv [annaFile], RunEffect sampleEnv,
       BackgroundSettled 0, TasksSettled 0,
       SelectPhotos sampleEnv [annaFile], RunEffect sampleEnv, TasksSettled 0]
      initialSession)) = idle \<and>
   suspended (run
      [SelectLogo sampleEnv [logoFile], LogoConverted 0,
       SelectPhotos sampleEnv [annaFile], RunEffect sampleEnv,
       BackgroundSettled 0, TasksSettled 0,
       SelectPhotos sampleEnv [annaFile], RunEffect sampleEnv, TasksSettled 0]
      initialSession) = [] \<and>
   map status (fanIn [Rejected NonError] [(newImage sampleEnv annaFile)\<lparr>status := st_processing\<rparr>])
     = [st_processing]"
  by (simp add: session_defs sampleEnv_fields sample_logo newImage_anna sample_background
      sample_processImage)

text \<open>
  C6. Two jobs of one batch whose files have the same name and modification time share an
  identifier. The job at position 0 is processed successfully under both services below;
  its record ends \<^verbatim>\<open>done\<close> when the job at position 1 succeeds and \<^verbatim>\<open>error\<close>, with the
  other job's message, when the job at position 1 fails, because both results are written
  to the first record with that identifier.
\<close>

theorem twin_failure_changes_sibling:
  "res_status (fst (processImage sampleEnv bg logo (0, newImage sampleEnv annaFile))) = st_done \<and>
   res_status (fst (processImage (failingAt 1) bg logo (0, newImage sampleEnv annaFile))) = st_done \<and>
   map status (employeeImages (app (run
      [SelectLogo sampleEnv [logoFile], LogoConverted 0,
       SelectPhotos sampleEnv [annaFile, annaFile], RunEffect sampleEnv,
       BackgroundSettled 0, TasksSettled 0] initialSession))) = [st_done, st_processing] \<and>
   map status (employeeImages (app (run
      [SelectLogo sampleEnv [logoFile], LogoConverted 0,
       SelectPhotos sampleEnv [annaFile, annaFile], RunEffect (failingAt 1),
       BackgroundSettled 0, TasksSettled 0] initialSession))) = [st_error, st_processing] \<and>
   map img_error (employeeImages (app (run
      [SelectLogo sampleEnv [logoFile], LogoConverted 0,
       SelectPhotos sampleEnv [annaFile, annaFile], RunEffect (failingAt 1),
       BackgroundSettled 0, TasksSettled 0] initialSession))) =
     [Some ''Headshot Processing failed after 3 attempts. Last error: 503 Service Unavailable'', None]"
  by (simp add: session_defs sampleEnv_fields sample_logo newImage_anna sample_background
      failingAt_background sample_processImage failingAt_processImage)

text \<open>
  The session in which the logo is replaced: the second conversion is under way when the
  photograph is selected and the round starts, and settles while the round waits for the
  master background.
\<close>

lemma replaced_logo_state:
  "run replacedLogoSession initialSession =
     \<lparr>app = \<lparr>appState = needs_photos, masterBackground = None,
              companyLogo = Some \<lparr>base64 = Some ''cGl4ZWxz'', mimeType = ''image/png''\<rparr>,
              employeeImages =
                [(newImage sampleEnv annaFile)\<lparr>status := st_processing\<rparr>,
                 newImage sampleEnv benFile]\<rparr>,
      suspended =
        [\<lparr>su_env = sampleEnv, su_batch = [newImage sampleEnv annaFile],
          su_logo = \<lparr>base64 = Some ''cGl4ZWxz'', mimeType = ''image/png''\<rparr>,
          su_phase = AwaitingBackground\<rparr>],
      converting = [],
      issued = [ConvertImageToBase64 logoFile False, ConvertImageToBase64 logoFile False,
                GenerateMasterBackground]\<rparr>"
  by (simp add: replacedLogoSession_def session_defs sampleEnv_fields sample_logo newImage_anna
      newImage_ben)


text \<open>
  C3. In the same session the second round starts while the first still waits for its master
  background, so it closed over a state without one and calls
  \<^verbatim>\<open>generateMasterBackground\<close> as well: two creation calls are issued although neither
  fails. The first to return is stored in the state; the second, when it returns,
  replaces it. The two jobs are processed with different backgrounds, and a round started
  after both uses the second background, not the one the first successful creation stored.
\<close>

theorem overlapping_rounds_overwrite_background:
  "map su_phase (suspended (run (replacedLogoSession @ [RunEffect secondEnv]) initialSession)) =
     [AwaitingBackground, AwaitingBackground] \<and>
   creations (issued (run (replacedLogoSession @ [RunEffect secondEnv]) initialSession)) = 2 \<and>
   masterBackground (app (run (replacedLogoSession @ [RunEffect secondEnv, BackgroundSettled 0])
      initialSession)) =
     Some \<lparr>base64 = Some ''YmFja2dyb3VuZA=='', mimeType = ''image/png''\<rparr> \<and>
   masterBackground (app (run (replacedLogoSession
        @ [RunEffect secondEnv, BackgroundSettled 0, BackgroundSettled 1]) initialSession)) =
     Some \<lparr>base64 = Some ''c2Vjb25k'', mimeType = ''image/png''\<rparr> \<and>
   backgroundsUsed (issued (run (replacedLogoSession
        @ [RunEffect secondEnv, BackgroundSettled 0, BackgroundSettled 1,
           TasksSettled 0, TasksSettled 0,
           SelectPhotos sampleEnv [caraFile], RunEffect sampleEnv, TasksSettled 0])
      initialSession)) =
     [\<lparr>base64 = Some ''YmFja2dyb3VuZA=='', mimeType = ''image/png''\<rparr>,
      \<lparr>base64 = Some ''c2Vjb25k'', mimeType = ''image/png''\<rparr>,
      \<lparr>base64 = Some ''c2Vjb25k'', mimeType = ''image/png''\<rparr>] \<and>
   creations (issued (run (replacedLogoSession
        @ [RunEffect secondEnv, BackgroundSettled 0, BackgroundSettled 1,
           TasksSettled 0, TasksSettled 0,
           SelectPhotos sampleEnv [caraFile], RunEffect sampleEnv, TasksSettled 0])
      initialSession)) = 2 \<and>
   map status (employeeImages (app (run (replacedLogoSession
        @ [RunEffect secondEnv, BackgroundSettled 0, BackgroundSettled 1,
           TasksSettled 0, TasksSettled 0,
           SelectPhotos sampleEnv [caraFile], RunEffect sampleEnv, TasksSettled 0])
      initialSession))) = [st_done, st_done, st_done]"
  apply (simp only: run_append replaced_logo_state)
  apply (simp add: session_defs sampleEnv_fields secondEnv_fields
      sample_logo newImage_anna newImage_ben newImage_cara sample_background second_background
      sample_processImage second_processImage task_calls)
  done

end
